theory Spec2Isabelle
  imports Main
begin

section \<open>Go library functions the program calls\<close>

text \<open>
  A Go \<open>string\<close> and a \<open>[]byte\<close> are byte sequences: both are \<open>char list\<close>
  here (an Isabelle \<open>char\<close> is one byte). A \<open>rune\<close> is a code point. Go's \<open>int\<close>
  counters (byte counts of one transfer) are modelled as \<open>int\<close>: they stay far
  below \<open>2 ^ 63\<close>; the range check of \<open>strconv.Atoi\<close>, which a long digit string
  reaches, is modelled.
\<close>

type_synonym bytes = string
type_synonym rune = int

subsection \<open>strings\<close>

definition HasPrefix :: "string \<Rightarrow> string \<Rightarrow> bool" where
  "HasPrefix s p = (length p \<le> length s \<and> take (length p) s = p)"

text \<open>\<open>strings.Split(s, sep)\<close> for a one-byte separator: always at least one token.\<close>

fun Split :: "string \<Rightarrow> char \<Rightarrow> string list" where
  "Split [] sep = [[]]"
| "Split (c # cs) sep =
     (if c = sep then [] # Split cs sep
      else (case Split cs sep of [] \<Rightarrow> [[c]] | t # ts \<Rightarrow> (c # t) # ts))"

subsection \<open>strconv.Atoi and the verb \<open>%d\<close>\<close>

definition isDigit :: "char \<Rightarrow> bool" where
  "isDigit c = (48 \<le> (of_char c :: int) \<and> (of_char c :: int) \<le> 57)"

definition digitsVal :: "string \<Rightarrow> int" where
  "digitsVal ds = foldl (\<lambda>n c. n * 10 + (of_char c - 48)) 0 ds"

text \<open>
  \<open>strconv.Atoi\<close> on a 64-bit platform: an optional sign, then one or more decimal
  digits and nothing else, and a value that fits \<open>int\<close>. \<open>None\<close> is \<open>err != nil\<close>
  (the program never looks at the kind of error).
\<close>

definition Atoi :: "string \<Rightarrow> int option" where
  "Atoi s =
     (let neg = (s \<noteq> [] \<and> hd s = CHR ''-'');
          ds = (if s \<noteq> [] \<and> (hd s = CHR ''-'' \<or> hd s = CHR ''+'') then tl s else s)
      in if ds = [] \<or> \<not> list_all isDigit ds then None
         else if neg then (if digitsVal ds \<le> 2 ^ 63 then Some (- digitsVal ds) else None)
         else (if digitsVal ds < 2 ^ 63 then Some (digitsVal ds) else None))"

definition digitChar :: "nat \<Rightarrow> char" where
  "digitChar d = ''0123456789'' ! d"

fun digits :: "nat \<Rightarrow> string" where
  "digits n = (if n < 10 then [digitChar n] else digits (n div 10) @ [digitChar (n mod 10)])"

declare digits.simps [simp del]

text \<open>\<open>%d\<close> of an \<open>int\<close> (\<open>strconv.Itoa\<close>).\<close>

definition Itoa :: "int \<Rightarrow> string" where
  "Itoa i = (if i < 0 then CHR ''-'' # digits (nat (- i)) else digits (nat i))"

subsection \<open>unicode/utf8\<close>

definition RuneError :: rune where
  "RuneError = 0xFFFD"

text \<open>
  \<open>utf8.DecodeRuneInString\<close>, which is also what \<open>for _, r := range s\<close> does at each
  position: the code point and its width; an invalid or cut-off sequence is
  \<open>RuneError\<close> of width 1.
\<close>

fun DecodeRune :: "bytes \<Rightarrow> rune \<times> nat" where
  "DecodeRune [] = (RuneError, 0)"
| "DecodeRune (c0 # cs) =
     (let s0 = (of_char c0 :: int) in
      if s0 < 0x80 then (s0, 1)
      else if s0 < 0xC2 \<or> 0xF4 < s0 then (RuneError, 1)
      else
        let sz = (if s0 < 0xE0 then 2 else if s0 < 0xF0 then 3 else 4 :: nat);
            lo = (if s0 = 0xE0 then 0xA0 else if s0 = 0xF0 then 0x90 else 0x80 :: int);
            hi = (if s0 = 0xED then 0x9F else if s0 = 0xF4 then 0x8F else 0xBF :: int)
        in if Suc (length cs) < sz then (RuneError, 1)
           else
             let s1 = (of_char (cs ! 0) :: int) in
             if s1 < lo \<or> hi < s1 then (RuneError, 1)
             else if sz \<le> 2 then ((s0 mod 32) * 64 + s1 mod 64, 2)
             else
               let s2 = (of_char (cs ! 1) :: int) in
               if s2 < 0x80 \<or> 0xBF < s2 then (RuneError, 1)
               else if sz \<le> 3 then ((s0 mod 16) * 4096 + (s1 mod 64) * 64 + s2 mod 64, 3)
               else
                 let s3 = (of_char (cs ! 2) :: int) in
                 if s3 < 0x80 \<or> 0xBF < s3 then (RuneError, 1)
                 else ((s0 mod 8) * 262144 + (s1 mod 64) * 4096 + (s2 mod 64) * 64
                         + s3 mod 64, 4))"

declare DecodeRune.simps(2) [simp del]

definition ValidRune :: "rune \<Rightarrow> bool" where
  "ValidRune r = ((0 \<le> r \<and> r < 0xD800) \<or> (0xDFFF < r \<and> r \<le> 0x10FFFF))"

text \<open>\<open>utf8.AppendRune\<close>: the UTF-8 encoding of a code point.\<close>

definition EncodeRune :: "rune \<Rightarrow> bytes" where
  "EncodeRune r =
     (if 0 \<le> r \<and> r \<le> 0x7F then [char_of r]
      else if 0 \<le> r \<and> r \<le> 0x7FF then [char_of (0xC0 + r div 64), char_of (0x80 + r mod 64)]
      else
        let r' = (if ValidRune r then r else RuneError) in
        if r' \<le> 0xFFFF
        then [char_of (0xE0 + r' div 4096), char_of (0x80 + (r' div 64) mod 64),
              char_of (0x80 + r' mod 64)]
        else [char_of (0xF0 + r' div 262144), char_of (0x80 + (r' div 4096) mod 64),
              char_of (0x80 + (r' div 64) mod 64), char_of (0x80 + r' mod 64)])"

subsection \<open>unicode.IsPrint\<close>

text \<open>
  \<open>unicode.IsPrint\<close> answers from the Latin-1 property table up to \<open>U+00FF\<close> and from
  the Unicode range tables (categories L, M, N, P, S) above. The Latin-1 part is
  written out; the range tables are the parameter \<open>tab\<close>.
\<close>

definition IsPrint :: "(rune \<Rightarrow> bool) \<Rightarrow> rune \<Rightarrow> bool" where
  "IsPrint tab r =
     (if 0 \<le> r \<and> r \<le> 0xFF
      then (0x20 \<le> r \<and> r < 0x7F) \<or> (0xA1 \<le> r \<and> r \<noteq> 0xAD)
      else tab r)"

subsection \<open>strconv.Quote, the verb \<open>%q\<close>\<close>

definition lowerhex :: "int \<Rightarrow> char" where
  "lowerhex d = ''0123456789abcdef'' ! nat d"

definition bslash :: char where
  "bslash = CHR 0x5C"

definition dquote :: char where
  "dquote = CHR 0x22"

definition appendEscapedRune :: "(rune \<Rightarrow> bool) \<Rightarrow> rune \<Rightarrow> string" where
  "appendEscapedRune tab r =
     (if r = 0x22 \<or> r = 0x5C then [bslash, char_of r]
      else if IsPrint tab r then EncodeRune r
      else if r = 7 then [bslash, CHR ''a'']
      else if r = 8 then [bslash, CHR ''b'']
      else if r = 12 then [bslash, CHR ''f'']
      else if r = 10 then [bslash, CHR ''n'']
      else if r = 13 then [bslash, CHR ''r'']
      else if r = 9 then [bslash, CHR ''t'']
      else if r = 11 then [bslash, CHR ''v'']
      else if r < 0x20 \<or> r = 0x7F
        then [bslash, CHR ''x'', lowerhex ((r mod 256) div 16), lowerhex (r mod 16)]
      else
        let r' = (if ValidRune r then r else RuneError) in
        if r' < 0x10000
        then [bslash, CHR ''u''] @ map (\<lambda>s. lowerhex ((r' div 2 ^ s) mod 16)) [12, 8, 4, 0]
        else [bslash, CHR ''U'']
               @ map (\<lambda>s. lowerhex ((r' div 2 ^ s) mod 16)) [28, 24, 20, 16, 12, 8, 4, 0])"

function quoteLoop :: "(rune \<Rightarrow> bool) \<Rightarrow> string \<Rightarrow> string" where
  "quoteLoop tab s =
     (if s = [] then []
      else
        let s0 = (of_char (hd s) :: int);
            r = (if s0 \<ge> 0x80 then fst (DecodeRune s) else s0);
            width = (if s0 \<ge> 0x80 then snd (DecodeRune s) else 1)
        in (if width = 1 \<and> r = RuneError
            then [bslash, CHR ''x'', lowerhex (s0 div 16), lowerhex (s0 mod 16)]
            else appendEscapedRune tab r) @ quoteLoop tab (drop width s))"
  by pat_completeness auto
termination
proof (relation "measure (\<lambda>(tab, s). length s)")
  show "wf (measure (\<lambda>(tab, s). length s))" by simp
next
  fix tab :: "rune \<Rightarrow> bool" and s :: string and s0 r :: int and width :: nat
  assume "s \<noteq> []" and "s0 = of_char (hd s)"
    and w: "width = (if 128 \<le> s0 then snd (DecodeRune s) else 1)"
  then have "1 \<le> width"
    by (cases s) (simp_all add: DecodeRune.simps(2) Let_def)
  with \<open>s \<noteq> []\<close> show "((tab, drop width s), (tab, s)) \<in> measure (\<lambda>(tab, s). length s)"
    by (cases s) auto
qed

declare quoteLoop.simps [simp del]

definition Quote :: "(rune \<Rightarrow> bool) \<Rightarrow> string \<Rightarrow> string" where
  "Quote tab s = dquote # quoteLoop tab s @ [dquote]"

subsection \<open>net/http headers and nats.go messages\<close>

text \<open>
  \<open>http.Header\<close> is a map from a key to its values; a missing key has no values.
  The keys the program uses (\<open>Status\<close>, \<open>Content-Length\<close>) are in canonical form.
\<close>

type_synonym header = "string \<Rightarrow> string list"

definition Get :: "header \<Rightarrow> string \<Rightarrow> string" where
  "Get h key = (case h key of [] \<Rightarrow> [] | v # _ \<Rightarrow> v)"

definition Add :: "header \<Rightarrow> string \<Rightarrow> string \<Rightarrow> header" where
  "Add h key v = h(key := h key @ [v])"

record msg =
  Subject :: string
  Reply :: string
  Header :: header
  Data :: bytes

definition NewMsg :: "string \<Rightarrow> msg" where
  "NewMsg subject = \<lparr>Subject = subject, Reply = [], Header = (\<lambda>_. []), Data = []\<rparr>"

record subscription =
  sub_Subject :: string
  sub_closed :: bool

section \<open>The server: the response writer \<open>nrw\<close>\<close>

text \<open>
  The fields of \<open>nrw\<close>. The mutex is not a field of the model: a function below is
  one critical section, and \<open>Write\<close>, which gives the lock up while it waits, takes
  the acks that are handled meanwhile as an input. The connection \<open>nc\<close> is the
  environment: every call on it is an \<open>event\<close> of the trace a function returns.
  \<open>acks\<close> is the channel of capacity 1: \<open>None\<close> is the nil channel, \<open>Some n\<close> a
  channel holding \<open>n\<close> signals.
\<close>

record nrw =
  reply :: string
  hdr :: "msg option"
  inbox :: string
  asub :: "subscription option"
  acks :: "nat option"
  index :: int
  pending :: int

datatype wake = AckSignal | TimerFired

datatype event =
    Subscribe string
  | Unsubscribe string
  | PublishRequest string string bytes "string option"
  | PublishMsg msg
  | Printf string "string list"
  | Select wake

datatype panic = NilPointerDereference

text \<open>\<open>w := &nrw{nc: nc, reply: m.Reply}\<close> in \<open>natsHandleFunc\<close>.\<close>

definition new_nrw :: "string \<Rightarrow> nrw" where
  "new_nrw r = \<lparr>reply = r, hdr = None, inbox = [], asub = None, acks = None,
                index = 0, pending = 0\<rparr>"

definition nrw_Header :: "nrw \<Rightarrow> nrw \<times> header" where
  "nrw_Header w =
     (case hdr w of
        None \<Rightarrow> (w\<lparr>hdr := Some (NewMsg (reply w))\<rparr>, Header (NewMsg (reply w)))
      | Some h \<Rightarrow> (w, Header h))"

definition defaultWindowSize :: int where
  "defaultWindowSize = 32 * 1024 * 1024"

definition processFlowAck :: "nrw \<Rightarrow> msg \<Rightarrow> nrw \<times> event list" where
  "processFlowAck w m =
     (let tokens = Split (Subject m) CHR ''.'' in
      if length tokens < 2 then (w, [Printf ''Bad ack subject %q'' [Subject m]])
      else
        (case Atoi (tokens ! (length tokens - 1)) of
           None \<Rightarrow> (w, [Printf ''Bad ack subject %q'' [Subject m]])
         | Some chunkSize \<Rightarrow> (w\<lparr>pending := pending w - chunkSize\<rparr>, [])))"

text \<open>
  What \<open>Write\<close> gets from outside: the name \<open>nats.NewInbox\<close> returns, whether
  \<open>Subscribe\<close> fails (the error is dropped), the acks the subscription handles
  while \<open>Write\<close> waits with the lock released, and the error of \<open>PublishRequest\<close>.
\<close>

record write_env =
  fresh_inbox :: string
  subscribe_fails :: bool
  during_wait :: "msg list"
  publish_error :: "string option"

fun deliver :: "nrw \<Rightarrow> msg list \<Rightarrow> nrw \<times> event list" where
  "deliver w [] = (w, [])"
| "deliver w (m # ms) =
     (let (w1, e1) = processFlowAck w m; (w2, e2) = deliver w1 ms in (w2, e1 @ e2))"

text \<open>
  \<open>select { case <-acks: case <-time.After(time.Millisecond): }\<close>: a signal in the
  channel is taken; with none, the timer fires.
\<close>

definition select_acks :: "nrw \<Rightarrow> wake \<times> nrw" where
  "select_acks w =
     (case acks w of
        Some (Suc n) \<Rightarrow> (AckSignal, w\<lparr>acks := Some n\<rparr>)
      | _ \<Rightarrow> (TimerFired, w))"

text \<open>
  \<open>Write\<close>, block by block. First \<open>if w.acks == nil { ... }\<close>: the inbox, the ack
  subscription and the channel are created on the first call.
\<close>

definition ensure_acks :: "write_env \<Rightarrow> nrw \<Rightarrow> nrw \<times> event list" where
  "ensure_acks env w =
     (if acks w = None
      then (w\<lparr>inbox := fresh_inbox env,
               asub := (if subscribe_fails env then None
                        else Some \<lparr>sub_Subject = fresh_inbox env @ ''.*'',
                                  sub_closed = False\<rparr>),
               acks := Some 0\<rparr>,
            [Subscribe (fresh_inbox env @ ''.*'')])
      else (w, []))"

text \<open>
  Then \<open>if w.pending > defaultWindowSize { ... }\<close>: unlock, wait in the \<open>select\<close>,
  lock again.
\<close>

definition window_wait :: "write_env \<Rightarrow> nrw \<Rightarrow> nrw \<times> event list" where
  "window_wait env w =
     (if pending w > defaultWindowSize
      then (let (w', e') = deliver w (during_wait env);
                (k, w'') = select_acks w'
            in (w'', e' @ [Select k]))
      else (w, []))"

text \<open>
  Then the publish and the count. \<open>Inl err\<close> is the return \<open>(0, err)\<close>, \<open>Inr n\<close> is
  \<open>(n, nil)\<close>.
\<close>

definition Write :: "write_env \<Rightarrow> nrw \<Rightarrow> bytes \<Rightarrow> (string + int) \<times> nrw \<times> event list" where
  "Write env w data =
     (let (w1, ev1) = ensure_acks env w;
          (w2, ev2) = window_wait env w1;
          ackReply = inbox w2 @ ''.'' @ Itoa (int (length data))
      in case publish_error env of
           Some err \<Rightarrow>
             (Inl err, w2, ev1 @ ev2 @ [PublishRequest (reply w2) ackReply data (Some err)])
         | None \<Rightarrow>
             (Inr (int (length data)), w2\<lparr>pending := pending w2 + int (length data)\<rparr>,
              ev1 @ ev2 @ [PublishRequest (reply w2) ackReply data None]))"

text \<open>
  \<open>http.StatusText\<close> is a table of the standard library: the parameter \<open>StatusText\<close>.
  \<open>w.hdr.Header\<close> on a nil \<open>w.hdr\<close> is a nil pointer dereference.
\<close>

definition WriteHeader :: "(int \<Rightarrow> string) \<Rightarrow> nrw \<Rightarrow> int \<Rightarrow> panic + nrw \<times> event list" where
  "WriteHeader StatusText w statusCode =
     (case hdr w of
        None \<Rightarrow> Inl NilPointerDereference
      | Some h \<Rightarrow>
          (let h' = h\<lparr>Header := Add (Header h) ''Status''
                                  (Itoa statusCode @ '' '' @ StatusText statusCode)\<rparr>
           in Inr (w\<lparr>hdr := Some h'\<rparr>, [PublishMsg h'])))"

text \<open>
  The end of the task \<open>natsHandleFunc\<close> starts for a request, after the handler has
  returned: \<open>w.asub.Unsubscribe()\<close> under the lock (on a nil subscription the call
  returns an error, which is dropped).
\<close>

definition teardown :: "nrw \<Rightarrow> nrw \<times> event list" where
  "teardown w =
     (case asub w of
        None \<Rightarrow> (w, [])
      | Some s \<Rightarrow> (w\<lparr>asub := Some (s\<lparr>sub_closed := True\<rparr>)\<rparr>, [Unsubscribe (sub_Subject s)]))"

subsection \<open>Interleavings of writes and ack deliveries on one writer\<close>

datatype step = DoWrite write_env bytes | AckDelivery msg

fun run :: "nrw \<Rightarrow> step list \<Rightarrow> nrw" where
  "run w [] = w"
| "run w (DoWrite env data # ss) = run (fst (snd (Write env w data))) ss"
| "run w (AckDelivery m # ss) = run (fst (processFlowAck w m)) ss"

text \<open>
  An interleaving in which every ack delivery answers a chunk that was published and
  not yet acknowledged: \<open>out\<close> holds the reply addresses of those chunks, a
  successful publish adds its address, an ack delivery must find its subject there
  and takes it out.
\<close>

fun settle :: "string list \<Rightarrow> string list \<Rightarrow> string list option" where
  "settle out [] = Some out"
| "settle out (s # ss) = (if s \<in> set out then settle (remove1 s out) ss else None)"

fun replies :: "event list \<Rightarrow> string list" where
  "replies [] = []"
| "replies (PublishRequest subj r d None # es) = r # replies es"
| "replies (e # es) = replies es"

fun answered :: "nrw \<Rightarrow> string list \<Rightarrow> step list \<Rightarrow> bool" where
  "answered w out [] = True"
| "answered w out (AckDelivery m # ss) =
     (case settle out [Subject m] of
        None \<Rightarrow> False
      | Some out' \<Rightarrow> answered (fst (processFlowAck w m)) out' ss)"
| "answered w out (DoWrite env data # ss) =
     (case settle out
             (map Subject (if defaultWindowSize < pending w then during_wait env else [])) of
        None \<Rightarrow> False
      | Some out' \<Rightarrow>
          answered (fst (snd (Write env w data)))
            (out' @ replies (snd (snd (Write env w data)))) ss)"

text \<open>What an ack with subject \<open>s\<close> takes off the counter, for the proofs.\<close>

definition chunk :: "string \<Rightarrow> int" where
  "chunk s = (case Atoi (last (Split s CHR ''.'')) of None \<Rightarrow> 0 | Some n \<Rightarrow> n)"

definition good :: "string \<Rightarrow> bool" where
  "good s = (2 \<le> length (Split s CHR ''.'') \<and> 0 \<le> chunk s)"

definition Inv :: "nrw \<Rightarrow> string list \<Rightarrow> bool" where
  "Inv w out = (sum_list (map chunk out) \<le> pending w \<and> list_all good out)"

subsection \<open>Example inputs\<close>

text \<open>Two rows of \<open>http.StatusText\<close>.\<close>

definition StatusText_std :: "int \<Rightarrow> string" where
  "StatusText_std code =
     (if code = 200 then ''OK'' else if code = 404 then ''Not Found'' else [])"

definition env_ok :: write_env where
  "env_ok = \<lparr>fresh_inbox = ''_INBOX.x'', subscribe_fails = False, during_wait = [],
             publish_error = None\<rparr>"

text \<open>A writer whose handler has called \<open>Header()\<close>, and the same after one \<open>WriteHeader(200)\<close>.\<close>

definition writer_with_header :: nrw where
  "writer_with_header = fst (nrw_Header (new_nrw ''reply''))"

definition after_first_header :: nrw where
  "after_first_header = fst (projr (WriteHeader StatusText_std writer_with_header 200))"

text \<open>A writer after one 3-byte write, and the same after the handler has returned.\<close>

definition streaming_writer :: nrw where
  "streaming_writer = fst (snd (Write env_ok (new_nrw ''reply'') ''abc''))"

definition closed_writer :: nrw where
  "closed_writer = fst (teardown streaming_writer)"

text \<open>
  A writer over the window: one write of 32 MiB + 1 bytes is not acknowledged yet.
  Its ack, and an environment in which that ack arrives while the next \<open>Write\<close> waits.
\<close>

definition full_writer :: nrw where
  "full_writer = fst (snd (Write env_ok (new_nrw ''reply'') (replicate 33554433 CHR ''x'')))"

definition big_ack :: msg where
  "big_ack = NewMsg ''_INBOX.x.33554433''"

definition env_acked :: write_env where
  "env_acked = env_ok\<lparr>during_wait := [big_ack]\<rparr>"

text \<open>A 3-byte chunk acknowledged twice, and two chunks acknowledged once each.\<close>

definition double_ack :: "step list" where
  "double_ack = [DoWrite env_ok ''abc'', AckDelivery (NewMsg ''_INBOX.x.3''),
                 AckDelivery (NewMsg ''_INBOX.x.3'')]"

definition two_chunks :: "step list" where
  "two_chunks = [DoWrite env_ok ''abc'', DoWrite env_ok ''de'',
                 AckDelivery (NewMsg ''_INBOX.x.2''), AckDelivery (NewMsg ''_INBOX.x.3'')]"

section \<open>The client\<close>

subsection \<open>\<open>isPrintable\<close>\<close>

definition snippetSize :: nat where
  "snippetSize = 32"

text \<open>The loop \<open>for _, r := range string(s)\<close> with its early return.\<close>

function isPrintable_loop :: "(rune \<Rightarrow> bool) \<Rightarrow> string \<Rightarrow> bool" where
  "isPrintable_loop tab s =
     (if s = [] then True
      else if \<not> IsPrint tab (fst (DecodeRune s)) then False
      else isPrintable_loop tab (drop (snd (DecodeRune s)) s))"
  by pat_completeness auto
termination
proof (relation "measure (\<lambda>(tab, s). length s)")
  show "wf (measure (\<lambda>(tab, s). length s))" by simp
next
  fix tab :: "rune \<Rightarrow> bool" and s :: string
  assume "s \<noteq> []"
  then have "1 \<le> snd (DecodeRune s)"
    by (cases s) (simp_all add: DecodeRune.simps(2) Let_def)
  with \<open>s \<noteq> []\<close>
  show "((tab, drop (snd (DecodeRune s)) s), (tab, s)) \<in> measure (\<lambda>(tab, s). length s)"
    by (cases s) auto
qed

declare isPrintable_loop.simps [simp del]

definition isPrintable :: "(rune \<Rightarrow> bool) \<Rightarrow> bytes \<Rightarrow> bool" where
  "isPrintable tab data =
     (let s = data;
          s = (if length s > snippetSize then take snippetSize s else s)
      in isPrintable_loop tab s)"

text \<open>
  The code points of a byte string as Go decodes it, to state what \<open>isPrintable\<close>
  tests.
\<close>

function runes :: "string \<Rightarrow> rune list" where
  "runes s = (if s = [] then [] else fst (DecodeRune s) # runes (drop (snd (DecodeRune s)) s))"
  by pat_completeness auto
termination
proof (relation "measure length")
  show "wf (measure length)" by simp
next
  fix s :: string
  assume "s \<noteq> []"
  then have "1 \<le> snd (DecodeRune s)"
    by (cases s) (simp_all add: DecodeRune.simps(2) Let_def)
  with \<open>s \<noteq> []\<close> show "(drop (snd (DecodeRune s)) s, s) \<in> measure length"
    by (cases s) auto
qed

declare runes.simps [simp del]

subsection \<open>\<open>main\<close>, from the first \<open>sub.NextMsg\<close> on\<close>

text \<open>
  What \<open>main\<close> gets from outside: the flags \<open>-i\<close> and \<open>-output\<close>, the error of
  \<open>os.OpenFile\<close>, \<open>nc.LastError()\<close>, and what the \<open>k\<close>-th call of \<open>sub.NextMsg\<close>
  returns (\<open>Inl\<close> an error, a timeout among them). What it does is a trace of
  events; \<open>calls\<close> counts the calls of \<open>sub.NextMsg\<close>.
\<close>

record client_env =
  showHeaders :: bool
  output_file :: string
  open_error :: "string option"
  last_error :: "string option"
  NextMsg :: "nat \<Rightarrow> string + msg"

datatype cevent =
    Logf string "string list"
  | Fatalf string "string list"
  | PrintHeader header
  | FileWrite bytes
  | Respond string

datatype ending = Returned | Exited

record outcome =
  ending :: ending
  received :: int
  calls :: nat
  trace :: "cevent list"

text \<open>
  The receive loop. \<open>has_fd\<close> is \<open>fd != nil\<close>. A chunk that is consumed is not
  empty, so \<open>cl - received\<close> decreases: the loop ends for every stream of messages.
\<close>

function receive_loop ::
  "(rune \<Rightarrow> bool) \<Rightarrow> bool \<Rightarrow> (nat \<Rightarrow> string + msg) \<Rightarrow> int \<Rightarrow> nat \<Rightarrow> int \<Rightarrow> bool
     \<Rightarrow> cevent list \<Rightarrow> outcome" where
  "receive_loop tab has_fd next cl i rcvd checked tr =
     (if \<not> rcvd < cl then \<lparr>ending = Returned, received = rcvd, calls = i, trace = tr\<rparr>
      else if isl (next i) \<or> length (Data (projr (next i))) = 0
        then \<lparr>ending = Returned, received = rcvd, calls = Suc i, trace = tr\<rparr>
      else if \<not> checked \<and> \<not> has_fd \<and> \<not> isPrintable tab (Data (projr (next i)))
        then \<lparr>ending = Exited, received = rcvd, calls = Suc i,
              trace = tr @ [Fatalf ''Warning, data received is binary, consider using -output FILE'' []]\<rparr>
      else receive_loop tab has_fd next cl (Suc i)
             (rcvd + int (length (Data (projr (next i)))))
             (if \<not> checked \<and> \<not> has_fd then True else checked)
             (tr @ [if has_fd then FileWrite (Data (projr (next i)))
                    else Logf [CHR 0x0A, CHR ''%'', CHR ''s''] [Data (projr (next i))],
                    Respond (Reply (projr (next i)))]))"
  by pat_completeness auto
termination
  by (relation "measure (\<lambda>(tab, has_fd, next, cl, i, rcvd, checked, tr). nat (cl - rcvd))")
    auto

declare receive_loop.simps [simp del]

definition client_main :: "(rune \<Rightarrow> bool) \<Rightarrow> client_env \<Rightarrow> outcome" where
  "client_main tab env =
     (case NextMsg env 0 of
        Inl err \<Rightarrow>
          \<lparr>ending = Exited, received = 0, calls = 1,
           trace = [Fatalf ''%v for request''
                      [case last_error env of Some e \<Rightarrow> e | None \<Rightarrow> err]]\<rparr>
      | Inr m \<Rightarrow>
          (let status = Get (Header m) ''Status'' in
           if \<not> HasPrefix status ''200''
           then \<lparr>ending = Exited, received = 0, calls = 1,
                 trace = [Fatalf ''Error retrieving resource %q'' [status]]\<rparr>
           else
             (case Atoi (Get (Header m) ''Content-Length'') of
                None \<Rightarrow>
                  \<lparr>ending = Exited, received = 0, calls = 1,
                   trace = [Fatalf ''Expected a Content-Length'' []]\<rparr>
              | Some cl \<Rightarrow>
                  (let tr = (if showHeaders env
                             then [Logf (''Received  [%v]'' @ [CHR 0x0A]) [Subject m],
                                   PrintHeader (Header m)]
                             else [])
                   in if output_file env \<noteq> [] \<and> open_error env \<noteq> None
                      then \<lparr>ending = Exited, received = 0, calls = 1,
                            trace = tr @ [Fatalf ''Error opening output file %q: %v''
                                            [output_file env, the (open_error env)]]\<rparr>
                      else receive_loop tab (output_file env \<noteq> []) (NextMsg env) cl 1 0 False tr))))"

text \<open>
  \<open>fmt\<close> for the verbs the program applies to strings: \<open>%q\<close> quotes, \<open>%s\<close> and \<open>%v\<close>
  copy.
\<close>

fun Sprintf :: "(rune \<Rightarrow> bool) \<Rightarrow> string \<Rightarrow> string list \<Rightarrow> string" where
  "Sprintf tab [] args = []"
| "Sprintf tab [c] args = (if c = CHR ''%'' then ''%!(NOVERB)'' else [c])"
| "Sprintf tab (c # v # cs) args =
     (if c = CHR ''%''
      then (case args of
              [] \<Rightarrow> ''%!'' @ [v] @ ''(MISSING)'' @ Sprintf tab cs []
            | a # as \<Rightarrow> (if v = CHR ''q'' then Quote tab a else a) @ Sprintf tab cs as)
      else c # Sprintf tab (v # cs) args)"

text \<open>\<open>strings.Contains\<close>, to state what a message contains.\<close>

fun Contains :: "string \<Rightarrow> string \<Rightarrow> bool" where
  "Contains [] sub = (sub = [])"
| "Contains (c # cs) sub = (HasPrefix (c # cs) sub \<or> Contains cs sub)"

text \<open>A string of printable ASCII characters other than the double quote and the backslash.\<close>

definition plain_char :: "char \<Rightarrow> bool" where
  "plain_char c = (0x20 \<le> (of_char c :: int) \<and> (of_char c :: int) < 0x7F
                    \<and> c \<noteq> dquote \<and> c \<noteq> bslash)"

definition plain :: "string \<Rightarrow> bool" where
  "plain s = list_all plain_char s"

subsection \<open>The receive loop over a run of chunks\<close>

text \<open>
  The \<open>k\<close>-th receive is a chunk when it succeeds with data in it. \<open>streaming\<close> says
  that the next \<open>n\<close> receives are chunks and that the total is below \<open>cl\<close> before
  each of them; \<open>total\<close> is their size and \<open>consumed_events\<close> what the loop does with
  them.
\<close>

definition is_chunk :: "(nat \<Rightarrow> string + msg) \<Rightarrow> nat \<Rightarrow> bool" where
  "is_chunk next k = (\<not> isl (next k) \<and> Data (projr (next k)) \<noteq> [])"

definition chunk_len :: "(nat \<Rightarrow> string + msg) \<Rightarrow> nat \<Rightarrow> int" where
  "chunk_len next k = int (length (Data (projr (next k))))"

fun total :: "(nat \<Rightarrow> string + msg) \<Rightarrow> nat \<Rightarrow> nat \<Rightarrow> int" where
  "total next i 0 = 0"
| "total next i (Suc n) = chunk_len next i + total next (Suc i) n"

fun streaming :: "(nat \<Rightarrow> string + msg) \<Rightarrow> int \<Rightarrow> nat \<Rightarrow> int \<Rightarrow> nat \<Rightarrow> bool" where
  "streaming next cl i rcvd 0 = True"
| "streaming next cl i rcvd (Suc n) =
     (rcvd < cl \<and> is_chunk next i \<and> streaming next cl (Suc i) (rcvd + chunk_len next i) n)"

fun consumed_events :: "bool \<Rightarrow> (nat \<Rightarrow> string + msg) \<Rightarrow> nat \<Rightarrow> nat \<Rightarrow> cevent list" where
  "consumed_events has_fd next i 0 = []"
| "consumed_events has_fd next i (Suc n) =
     [if has_fd then FileWrite (Data (projr (next i)))
      else Logf [CHR 0x0A, CHR ''%'', CHR ''s''] [Data (projr (next i))],
      Respond (Reply (projr (next i)))]
     @ consumed_events has_fd next (Suc i) n"

subsection \<open>Example inputs\<close>

text \<open>A range table with no entry, for inputs within Latin-1.\<close>

definition latin1_only :: "rune \<Rightarrow> bool" where
  "latin1_only r = False"

definition quoted_status :: string where
  "quoted_status = ''418 '' @ [dquote] @ ''teapot'' @ [dquote]"

text \<open>A reply with the given headers and data on the request's inbox.\<close>

definition reply_msg :: "string \<Rightarrow> string \<Rightarrow> bytes \<Rightarrow> msg" where
  "reply_msg status len d =
     \<lparr>Subject = ''_INBOX.req'', Reply = ''_INBOX.x.'' @ Itoa (int (length d)),
      Header = Add (Add (\<lambda>_. []) ''Status'' status) ''Content-Length'' len, Data = d\<rparr>"

text \<open>The first message is \<open>first\<close>, then come the chunks \<open>ds\<close>, then every receive times out.\<close>

definition stream_of :: "msg \<Rightarrow> bytes list \<Rightarrow> nat \<Rightarrow> string + msg" where
  "stream_of first ds k =
     (if k = 0 then Inr first
      else if k \<le> length ds then Inr (reply_msg [] [] (ds ! (k - 1)))
      else Inl ''nats: timeout'')"

definition env_of :: "msg \<Rightarrow> bytes list \<Rightarrow> client_env" where
  "env_of first ds = \<lparr>showHeaders = False, output_file = [], open_error = None,
                      last_error = None, NextMsg = stream_of first ds\<rparr>"

text \<open>
  A reply with status \<open>418 "teapot"\<close>; a reply \<open>404 Not Found\<close>; a transfer of 10
  bytes whose first chunk starts with a zero byte; a transfer of 10 bytes that
  stops after 5.
\<close>

definition env_teapot :: client_env where
  "env_teapot = env_of (reply_msg quoted_status ''0'' []) []"

definition env_404 :: client_env where
  "env_404 = env_of (reply_msg ''404 Not Found'' ''0'' []) []"

definition env_binary :: client_env where
  "env_binary = env_of (reply_msg ''200 OK'' ''10'' []) [[CHR 0x00, CHR 0x01]]"

definition env_short :: client_env where
  "env_short = env_of (reply_msg ''200 OK'' ''10'' []) [''he'', ''llo'']"

section \<open>Facts about the library functions\<close>

lemma Split_not_Nil: "Split s sep \<noteq> []"
  by (induction s) (auto split: list.splits)

lemma Split_no_sep: "sep \<notin> set s \<Longrightarrow> Split s sep = [s]"
  by (induction s) auto

lemma Split_append: "Split (a @ sep # b) sep = Split a sep @ Split b sep"
proof (induction a)
  case Nil
  show ?case by simp
next
  case (Cons c cs)
  obtain t ts where "Split cs sep = t # ts"
    using Split_not_Nil [of cs sep] by (cases "Split cs sep") auto
  with Cons show ?case by simp
qed

lemma Split_last_token:
  assumes "sep \<notin> set tok"
  shows "2 \<le> length (Split (pre @ sep # tok) sep)"
    and "Split (pre @ sep # tok) sep ! (length (Split (pre @ sep # tok) sep) - 1) = tok"
proof -
  have s: "Split (pre @ sep # tok) sep = Split pre sep @ [tok]"
    using assms by (simp add: Split_append Split_no_sep)
  have "1 \<le> length (Split pre sep)"
    using Split_not_Nil [of pre sep] by (cases "Split pre sep") auto
  then show "2 \<le> length (Split (pre @ sep # tok) sep)"
    by (simp add: s)
  show "Split (pre @ sep # tok) sep ! (length (Split (pre @ sep # tok) sep) - 1) = tok"
    by (simp add: s)
qed

lemma digitChar_val: "d < 10 \<Longrightarrow> (of_char (digitChar d) :: int) = 48 + int d"
proof -
  assume "d < 10"
  then have "d = 0 \<or> d = 1 \<or> d = 2 \<or> d = 3 \<or> d = 4 \<or> d = 5 \<or> d = 6 \<or> d = 7
      \<or> d = 8 \<or> d = 9"
    by presburger
  then show ?thesis
    by (auto simp: digitChar_def)
qed

lemma digitsVal_snoc: "digitsVal (ds @ [c]) = digitsVal ds * 10 + (of_char c - 48)"
  by (simp add: digitsVal_def)

text \<open>\<open>%d\<close> writes digits only, and they read back as the number.\<close>

lemma digits_props:
  "digits n \<noteq> [] \<and> list_all isDigit (digits n) \<and> digitsVal (digits n) = int n"
proof (induction n rule: digits.induct)
  case (1 n)
  show ?case
  proof (cases "n < 10")
    case True
    then show ?thesis
      by (simp add: digits.simps [of n] isDigit_def digitChar_val digitsVal_def)
  next
    case False
    have m: "n mod 10 < 10" by simp
    from False 1 have ih: "digits (n div 10) \<noteq> []" "list_all isDigit (digits (n div 10))"
      "digitsVal (digits (n div 10)) = int (n div 10)"
      by simp_all
    have "digitsVal (digits n) = int (n div 10) * 10 + int (n mod 10)"
      using False ih(3) by (simp add: digits.simps [of n] digitsVal_snoc digitChar_val [OF m])
    also have "\<dots> = int n"
      by (simp add: zdiv_int zmod_int)
    finally have v: "digitsVal (digits n) = int n" .
    have d: "isDigit (digitChar (n mod 10))"
      by (simp add: isDigit_def digitChar_val [OF m])
    have e: "digits n = digits (n div 10) @ [digitChar (n mod 10)]"
      using False by (simp add: digits.simps [of n])
    have "digits n \<noteq> []" "list_all isDigit (digits n)"
      using ih(2) d by (simp_all add: e)
    with v show ?thesis by simp
  qed
qed

lemma isDigit_not_special:
  "isDigit c \<Longrightarrow> c \<noteq> CHR ''.'' \<and> c \<noteq> CHR ''-'' \<and> c \<noteq> CHR ''+''"
  by (auto simp: isDigit_def)

lemma digits_no_dot: "CHR ''.'' \<notin> set (digits n)"
  using digits_props [of n] isDigit_not_special by (auto simp: list_all_iff)

lemma Atoi_digits: "Atoi (digits n) = (if int n < 2 ^ 63 then Some (int n) else None)"
proof -
  have p: "digits n \<noteq> []" "list_all isDigit (digits n)" "digitsVal (digits n) = int n"
    using digits_props [of n] by simp_all
  then have "isDigit (hd (digits n))"
    by (cases "digits n") simp_all
  then have "hd (digits n) \<noteq> CHR ''-''" "hd (digits n) \<noteq> CHR ''+''"
    using isDigit_not_special by blast+
  with p show ?thesis
    by (simp add: Atoi_def)
qed

lemma Itoa_nat: "Itoa (int n) = digits n"
  by (simp add: Itoa_def)

section \<open>Facts about the response writer\<close>

lemma processFlowAck_keeps:
  "reply (fst (processFlowAck w m)) = reply w"
  "hdr (fst (processFlowAck w m)) = hdr w"
  "inbox (fst (processFlowAck w m)) = inbox w"
  "asub (fst (processFlowAck w m)) = asub w"
  "acks (fst (processFlowAck w m)) = acks w"
  by (simp_all add: processFlowAck_def Let_def split: option.splits)

lemma deliver_keeps:
  "reply (fst (deliver w ms)) = reply w"
  "hdr (fst (deliver w ms)) = hdr w"
  "inbox (fst (deliver w ms)) = inbox w"
  "asub (fst (deliver w ms)) = asub w"
  "acks (fst (deliver w ms)) = acks w"
  by (induction ms arbitrary: w; simp add: processFlowAck_keeps case_prod_beta)+

lemma window_wait_keeps:
  "reply (fst (window_wait env w)) = reply w"
  "hdr (fst (window_wait env w)) = hdr w"
  "inbox (fst (window_wait env w)) = inbox w"
  "asub (fst (window_wait env w)) = asub w"
  by (simp_all add: window_wait_def select_acks_def deliver_keeps case_prod_beta
      split: option.splits nat.splits)

lemma ensure_acks_keeps:
  "reply (fst (ensure_acks env w)) = reply w"
  "hdr (fst (ensure_acks env w)) = hdr w"
  "pending (fst (ensure_acks env w)) = pending w"
  by (simp_all add: ensure_acks_def)

lemma Write_result:
  "fst (Write env w data)
     = (case publish_error env of None \<Rightarrow> Inr (int (length data)) | Some err \<Rightarrow> Inl err)"
  by (simp add: Write_def Let_def case_prod_beta split: option.splits)

lemma Write_state:
  "fst (snd (Write env w data))
     = (let w2 = fst (window_wait env (fst (ensure_acks env w)))
        in if publish_error env = None then w2\<lparr>pending := pending w2 + int (length data)\<rparr>
           else w2)"
  by (simp add: Write_def Let_def case_prod_beta split: option.splits)

lemma Write_events:
  "snd (snd (Write env w data))
     = snd (ensure_acks env w) @ snd (window_wait env (fst (ensure_acks env w)))
       @ [PublishRequest (reply w)
            (inbox (fst (ensure_acks env w)) @ ''.'' @ Itoa (int (length data))) data
            (publish_error env)]"
  by (simp add: Write_def Let_def case_prod_beta window_wait_keeps ensure_acks_keeps
      split: option.splits)

lemma Write_hdr: "hdr (fst (snd (Write env w data))) = hdr w"
  by (simp add: Write_state Let_def window_wait_keeps ensure_acks_keeps)

lemma run_hdr: "hdr (run w ss) = hdr w"
  by (induction w ss rule: run.induct) (simp_all add: Write_hdr processFlowAck_keeps)

lemma Atoi_non_numeric:
  "tok = [] \<or> (\<exists>c\<in>set tok. \<not> isDigit c \<and> c \<noteq> CHR ''-'' \<and> c \<noteq> CHR ''+'') \<Longrightarrow> Atoi tok = None"
  by (cases tok) (auto simp: Atoi_def list_all_iff)

lemma processFlowAck_token:
  assumes "Subject m = pre @ ''.'' @ tok" and "CHR ''.'' \<notin> set tok"
  shows "processFlowAck w m
           = (case Atoi tok of
                None \<Rightarrow> (w, [Printf ''Bad ack subject %q'' [Subject m]])
              | Some N \<Rightarrow> (w\<lparr>pending := pending w - N\<rparr>, []))"
proof -
  have "2 \<le> length (Split (Subject m) CHR ''.'')"
    and "Split (Subject m) CHR ''.'' ! (length (Split (Subject m) CHR ''.'') - 1) = tok"
    using Split_last_token [OF assms(2), of pre] assms(1) by simp_all
  then show ?thesis
    by (simp add: processFlowAck_def Let_def)
qed

text \<open>
  C5. An ack whose subject ends, after its last dot, in a token that \<open>Atoi\<close> reads as
  \<open>N\<close> takes \<open>N\<close> off \<open>pending\<close> and changes nothing else; the token \<open>%d\<close> writes for
  a size below \<open>2 ^ 63\<close> is such a token. An ack whose subject has no dot (fewer than
  two tokens), or whose last token \<open>Atoi\<close> rejects, is logged and leaves the writer
  as it was. There is no third outcome: \<open>processFlowAck\<close> never fails.
\<close>

theorem processFlowAck_cases:
  "(Subject m = pre @ ''.'' @ tok \<and> CHR ''.'' \<notin> set tok \<and> Atoi tok = Some N
      \<longrightarrow> processFlowAck w m = (w\<lparr>pending := pending w - N\<rparr>, []))
   \<and> (Subject m = pre @ ''.'' @ Itoa (int n) \<and> int n < 2 ^ 63
      \<longrightarrow> processFlowAck w m = (w\<lparr>pending := pending w - int n\<rparr>, []))
   \<and> (CHR ''.'' \<notin> set (Subject m)
        \<or> (Subject m = pre @ ''.'' @ tok \<and> CHR ''.'' \<notin> set tok \<and> Atoi tok = None)
      \<longrightarrow> processFlowAck w m = (w, [Printf ''Bad ack subject %q'' [Subject m]]))"
proof (intro conjI impI)
  assume "Subject m = pre @ ''.'' @ tok \<and> CHR ''.'' \<notin> set tok \<and> Atoi tok = Some N"
  then show "processFlowAck w m = (w\<lparr>pending := pending w - N\<rparr>, [])"
    by (simp add: processFlowAck_token)
next
  assume a: "Subject m = pre @ ''.'' @ Itoa (int n) \<and> int n < 2 ^ 63"
  then have "Subject m = pre @ ''.'' @ digits n"
    by (simp add: Itoa_nat)
  from processFlowAck_token [OF this digits_no_dot] a
  show "processFlowAck w m = (w\<lparr>pending := pending w - int n\<rparr>, [])"
    by (simp add: Atoi_digits)
next
  assume "CHR ''.'' \<notin> set (Subject m)
    \<or> (Subject m = pre @ ''.'' @ tok \<and> CHR ''.'' \<notin> set tok \<and> Atoi tok = None)"
  then show "processFlowAck w m = (w, [Printf ''Bad ack subject %q'' [Subject m]])"
  proof
    assume "CHR ''.'' \<notin> set (Subject m)"
    then show ?thesis
      by (simp add: processFlowAck_def Split_no_sep)
  next
    assume "Subject m = pre @ ''.'' @ tok \<and> CHR ''.'' \<notin> set tok \<and> Atoi tok = None"
    then show ?thesis
      by (simp add: processFlowAck_token)
  qed
qed

theorem processFlowAck_cases_witness:
  "processFlowAck streaming_writer (NewMsg ''_INBOX.x.3'')
     = (streaming_writer\<lparr>pending := 0\<rparr>, [])
   \<and> processFlowAck streaming_writer (NewMsg ''_INBOX'')
     = (streaming_writer, [Printf ''Bad ack subject %q'' [''_INBOX'']])
   \<and> processFlowAck streaming_writer (NewMsg ''_INBOX.x.3b'')
     = (streaming_writer, [Printf ''Bad ack subject %q'' [''_INBOX.x.3b'']])"
proof -
  have p: "pending streaming_writer = 3"
    by (simp add: streaming_writer_def Write_state ensure_acks_def window_wait_def
        new_nrw_def env_ok_def defaultWindowSize_def)
  have a: "Atoi ''3'' = Some 3" "Atoi ''3b'' = None"
    by (simp_all add: Atoi_def isDigit_def digitsVal_def)
  have "processFlowAck streaming_writer (NewMsg ''_INBOX.x.3'')
          = (streaming_writer\<lparr>pending := pending streaming_writer - 3\<rparr>, [])"
    using processFlowAck_cases [where m = "NewMsg ''_INBOX.x.3''" and pre = "''_INBOX.x''"
        and tok = "''3''" and N = 3 and n = 0 and w = streaming_writer] a
    by (simp add: NewMsg_def)
  moreover have "processFlowAck streaming_writer (NewMsg ''_INBOX'')
          = (streaming_writer, [Printf ''Bad ack subject %q'' [''_INBOX'']])"
    using processFlowAck_cases [where m = "NewMsg ''_INBOX''" and pre = "[]" and tok = "[]"
        and N = 0 and n = 0 and w = streaming_writer]
    by (simp add: NewMsg_def)
  moreover have "processFlowAck streaming_writer (NewMsg ''_INBOX.x.3b'')
          = (streaming_writer, [Printf ''Bad ack subject %q'' [''_INBOX.x.3b'']])"
    using processFlowAck_cases [where m = "NewMsg ''_INBOX.x.3b''" and pre = "''_INBOX.x''"
        and tok = "''3b''" and N = 0 and n = 0 and w = streaming_writer] a
    by (simp add: NewMsg_def)
  ultimately show ?thesis
    by (simp add: p)
qed

text \<open>
  C10. \<open>WriteHeader\<close> panics with a nil pointer dereference exactly when \<open>hdr\<close> is
  nil. A new writer has a nil \<open>hdr\<close>, writes and acks leave it nil, so
  \<open>WriteHeader\<close> before any \<open>Header()\<close> panics; \<open>Header()\<close> allocates it, and
  \<open>WriteHeader\<close> after it returns.
\<close>

theorem WriteHeader_needs_Header:
  "(isl (WriteHeader st w code) \<longleftrightarrow> hdr w = None)
   \<and> WriteHeader st (run (new_nrw r) ss) code = Inl NilPointerDereference
   \<and> hdr (fst (nrw_Header w)) \<noteq> None
   \<and> \<not> isl (WriteHeader st (fst (nrw_Header (run (new_nrw r) ss))) code)"
proof -
  have a: "isl (WriteHeader st w code) \<longleftrightarrow> hdr w = None" for w
    by (simp add: WriteHeader_def Let_def split: option.splits)
  have b: "hdr (run (new_nrw r) ss) = None"
    by (simp add: run_hdr new_nrw_def)
  have c: "hdr (fst (nrw_Header w)) \<noteq> None" for w
    by (simp add: nrw_Header_def split: option.splits)
  from a b c show ?thesis
    by (simp add: WriteHeader_def)
qed

theorem WriteHeader_needs_Header_witness:
  "WriteHeader StatusText_std (run (new_nrw ''reply'') [DoWrite env_ok ''abc'']) 200
     = Inl NilPointerDereference
   \<and> \<not> isl (WriteHeader StatusText_std (fst (nrw_Header (new_nrw ''reply''))) 200)"
  using WriteHeader_needs_Header [where st = StatusText_std and w = "new_nrw ''reply''"
      and code = 200 and r = "''reply''" and ss = "[DoWrite env_ok ''abc'']"]
    WriteHeader_needs_Header [where st = StatusText_std and w = "new_nrw ''reply''"
      and code = 200 and r = "''reply''" and ss = "[]"]
  by simp

lemma writer_with_header_eq:
  "writer_with_header = (new_nrw ''reply'')\<lparr>hdr := Some (NewMsg ''reply'')\<rparr>"
  by (simp add: writer_with_header_def nrw_Header_def new_nrw_def)

lemma after_first_header_hdr:
  "hdr after_first_header
     = Some ((NewMsg ''reply'')\<lparr>Header := Add (Header (NewMsg ''reply'')) ''Status'' ''200 OK''\<rparr>)"
  by (simp add: after_first_header_def writer_with_header_eq WriteHeader_def Let_def
      StatusText_std_def Itoa_def digits.simps digitChar_def)

text \<open>
  C6, as the spec states it, fails: on a writer that has already sent its header,
  a second \<open>WriteHeader(200)\<close> returns, publishes one more message and changes the
  writer (the header message now carries two \<open>Status\<close> values).
\<close>

theorem WriteHeader_second_call_counterexample:
  "\<not> isl (WriteHeader StatusText_std after_first_header 200)
   \<and> length (snd (projr (WriteHeader StatusText_std after_first_header 200))) = 1
   \<and> fst (projr (WriteHeader StatusText_std after_first_header 200)) \<noteq> after_first_header
   \<and> Header (the (hdr (fst (projr (WriteHeader StatusText_std after_first_header 200)))))
        ''Status'' = [''200 OK'', ''200 OK'']"
proof -
  have s: "Header (the (hdr (fst (projr (WriteHeader StatusText_std after_first_header 200)))))
        ''Status'' = [''200 OK'', ''200 OK'']"
    by (simp add: WriteHeader_def after_first_header_hdr Let_def Add_def NewMsg_def
        StatusText_std_def Itoa_def digits.simps digitChar_def)
  have "Header (the (hdr after_first_header)) ''Status'' = [''200 OK'']"
    by (simp add: after_first_header_hdr Add_def NewMsg_def)
  with s have "fst (projr (WriteHeader StatusText_std after_first_header 200))
      \<noteq> after_first_header"
    by auto
  with s show ?thesis
    by (simp add: WriteHeader_def after_first_header_hdr Let_def)
qed

text \<open>
  C6, amended: every call of \<open>WriteHeader\<close> on a writer whose header message is
  allocated appends a \<open>Status\<close> value to that message and publishes it, once per
  call; the header message is still allocated afterwards, so the next call does the
  same.
\<close>

theorem WriteHeader_every_call:
  "hdr w = Some h \<Longrightarrow>
     WriteHeader st w code
       = Inr (w\<lparr>hdr := Some (h\<lparr>Header := Add (Header h) ''Status''
                                            (Itoa code @ '' '' @ st code)\<rparr>)\<rparr>,
              [PublishMsg (h\<lparr>Header := Add (Header h) ''Status''
                                          (Itoa code @ '' '' @ st code)\<rparr>)])
     \<and> Add (Header h) ''Status'' (Itoa code @ '' '' @ st code) ''Status''
         = Header h ''Status'' @ [Itoa code @ '' '' @ st code]"
  by (simp add: WriteHeader_def Let_def Add_def)

theorem WriteHeader_every_call_witness:
  "hdr writer_with_header = Some (NewMsg ''reply'')
   \<and> snd (projr (WriteHeader StatusText_std writer_with_header 404))
       = [PublishMsg ((NewMsg ''reply'')\<lparr>Header := Add (Header (NewMsg ''reply'')) ''Status''
                                                      ''404 Not Found''\<rparr>)]"
proof -
  have h: "hdr writer_with_header = Some (NewMsg ''reply'')"
    by (simp add: writer_with_header_eq)
  have i: "Itoa 404 @ '' '' @ StatusText_std 404 = ''404 Not Found''"
    by (simp add: StatusText_std_def Itoa_def digits.simps digitChar_def)
  from WriteHeader_every_call [OF h, where st = StatusText_std and code = 404] h i
  show ?thesis
    by simp
qed

lemma streaming_writer_eq:
  "streaming_writer
     = \<lparr>reply = ''reply'', hdr = None, inbox = ''_INBOX.x'',
        asub = Some \<lparr>sub_Subject = ''_INBOX.x.*'', sub_closed = False\<rparr>,
        acks = Some 0, index = 0, pending = 3\<rparr>"
  by (simp add: streaming_writer_def Write_state ensure_acks_def window_wait_def
      new_nrw_def env_ok_def defaultWindowSize_def)

lemma closed_writer_eq:
  "closed_writer
     = \<lparr>reply = ''reply'', hdr = None, inbox = ''_INBOX.x'',
        asub = Some \<lparr>sub_Subject = ''_INBOX.x.*'', sub_closed = True\<rparr>,
        acks = Some 0, index = 0, pending = 3\<rparr>"
  by (simp add: closed_writer_def streaming_writer_eq teardown_def)

text \<open>
  C7, as the spec states it, fails: after the handler has returned and the ack
  subscription is closed, \<open>Write\<close> of four bytes returns \<open>(4, nil)\<close>, publishes the
  chunk and counts it.
\<close>

theorem Write_after_close_counterexample:
  "asub closed_writer = Some \<lparr>sub_Subject = ''_INBOX.x.*'', sub_closed = True\<rparr>
   \<and> Write env_ok closed_writer ''more''
       = (Inr 4, closed_writer\<lparr>pending := 7\<rparr>,
          [PublishRequest ''reply'' ''_INBOX.x.4'' ''more'' None])"
  by (simp add: closed_writer_eq Write_def ensure_acks_def window_wait_def env_ok_def
      defaultWindowSize_def Itoa_def digits.simps digitChar_def)

lemma processFlowAck_asub:
  "processFlowAck (w\<lparr>asub := a\<rparr>) m
     = ((fst (processFlowAck w m))\<lparr>asub := a\<rparr>, snd (processFlowAck w m))"
  by (simp add: processFlowAck_def Let_def split: option.splits)

lemma deliver_asub:
  "deliver (w\<lparr>asub := a\<rparr>) ms = ((fst (deliver w ms))\<lparr>asub := a\<rparr>, snd (deliver w ms))"
  by (induction ms arbitrary: w) (simp_all add: processFlowAck_asub case_prod_beta)

lemma window_wait_asub:
  "window_wait env (w\<lparr>asub := a\<rparr>)
     = ((fst (window_wait env w))\<lparr>asub := a\<rparr>, snd (window_wait env w))"
  by (simp add: window_wait_def deliver_asub select_acks_def deliver_keeps case_prod_beta
      split: option.splits nat.splits)

lemma ensure_acks_asub:
  "ensure_acks env (w\<lparr>asub := a\<rparr>)
     = (if acks w = None then ensure_acks env w
        else ((fst (ensure_acks env w))\<lparr>asub := a\<rparr>, snd (ensure_acks env w)))"
  by (simp add: ensure_acks_def)

lemma Write_asub:
  "fst (Write env (w\<lparr>asub := a\<rparr>) data) = fst (Write env w data)
   \<and> snd (snd (Write env (w\<lparr>asub := a\<rparr>) data)) = snd (snd (Write env w data))
   \<and> pending (fst (snd (Write env (w\<lparr>asub := a\<rparr>) data)))
       = pending (fst (snd (Write env w data)))"
  by (simp add: Write_result Write_events Write_state Let_def ensure_acks_asub
      window_wait_asub)

text \<open>
  C7, amended: closing only closes the ack subscription; the writer has no closed
  state. A \<open>Write\<close> after the close returns what it returns before it, publishes
  what it publishes before it and counts the same: \<open>len(data)\<close> and no error unless
  the publish itself fails.
\<close>

theorem Write_after_teardown:
  "fst (Write env (fst (teardown w)) data) = fst (Write env w data)
   \<and> snd (snd (Write env (fst (teardown w)) data)) = snd (snd (Write env w data))
   \<and> pending (fst (snd (Write env (fst (teardown w)) data)))
       = pending (fst (snd (Write env w data)))
   \<and> fst (Write env w data)
       = (case publish_error env of None \<Rightarrow> Inr (int (length data)) | Some err \<Rightarrow> Inl err)"
proof (cases "asub w")
  case None
  then show ?thesis
    by (simp add: teardown_def Write_result)
next
  case (Some s)
  then have "fst (teardown w) = w\<lparr>asub := Some (s\<lparr>sub_closed := True\<rparr>)\<rparr>"
    by (simp add: teardown_def)
  then show ?thesis
    using Write_asub [where env = env and w = w and a = "Some (s\<lparr>sub_closed := True\<rparr>)"
        and data = data]
    by (simp add: Write_result)
qed

theorem Write_after_teardown_witness:
  "fst (Write env_ok closed_writer ''more'') = Inr 4
   \<and> fst (Write env_ok streaming_writer ''more'') = Inr 4"
  using Write_after_teardown [where env = env_ok and w = streaming_writer
      and data = "''more''"]
  by (simp add: closed_writer_def env_ok_def)

lemma full_writer_eq:
  "full_writer
     = \<lparr>reply = ''reply'', hdr = None, inbox = ''_INBOX.x'',
        asub = Some \<lparr>sub_Subject = ''_INBOX.x.*'', sub_closed = False\<rparr>,
        acks = Some 0, index = 0, pending = 33554433\<rparr>"
  by (simp add: full_writer_def Write_state ensure_acks_def window_wait_def
      new_nrw_def env_ok_def defaultWindowSize_def)

lemma big_ack_handled:
  "processFlowAck full_writer big_ack = (full_writer\<lparr>pending := 0\<rparr>, [])"
proof -
  have "Subject big_ack = ''_INBOX.x'' @ ''.'' @ Itoa (int 33554433)"
    by (simp add: big_ack_def NewMsg_def Itoa_def digits.simps digitChar_def)
  then have "Subject big_ack = ''_INBOX.x'' @ ''.'' @ digits 33554433"
    by (simp only: Itoa_nat)
  from processFlowAck_token [OF this digits_no_dot, of full_writer]
  show ?thesis
    by (simp add: Atoi_digits full_writer_eq)
qed

text \<open>
  C4, on the code: the writer is over the window and the next \<open>Write\<close> waits. The
  ack for the outstanding chunk is handled during the wait: it takes the chunk off
  \<open>pending\<close> and leaves the channel \<open>acks\<close> empty, and the \<open>select\<close> in \<open>Write\<close> ends
  by its timer, not by a signal.
\<close>

theorem ack_does_not_signal:
  "processFlowAck full_writer big_ack = (full_writer\<lparr>pending := 0\<rparr>, [])
   \<and> acks (fst (processFlowAck full_writer big_ack)) = Some 0
   \<and> Write env_acked full_writer ''next''
       = (Inr 4, full_writer\<lparr>pending := 4\<rparr>,
          [Select TimerFired, PublishRequest ''reply'' ''_INBOX.x.4'' ''next'' None])"
proof -
  have a: "acks full_writer = Some 0" "defaultWindowSize < pending full_writer"
    "inbox full_writer = ''_INBOX.x''" "reply full_writer = ''reply''"
    by (simp_all add: full_writer_eq defaultWindowSize_def)
  have w: "window_wait env_acked full_writer = (full_writer\<lparr>pending := 0\<rparr>, [Select TimerFired])"
    using a(1,2) by (simp add: window_wait_def env_acked_def big_ack_handled select_acks_def)
  have pe: "publish_error env_acked = None"
    by (simp add: env_acked_def env_ok_def)
  have "Write env_acked full_writer ''next''
       = (Inr 4, full_writer\<lparr>pending := 4\<rparr>,
          [Select TimerFired, PublishRequest ''reply'' ''_INBOX.x.4'' ''next'' None])"
    using a by (simp add: Write_def ensure_acks_def w pe
        Itoa_def digits.simps digitChar_def)
  with a(1) show ?thesis
    by (simp add: big_ack_handled)
qed

text \<open>No code sends on the channel: an empty channel stays empty and every wait ends by the timer.\<close>

lemma window_wait_timer:
  "acks w = Some 0 \<Longrightarrow> defaultWindowSize < pending w \<Longrightarrow>
     window_wait env w = (fst (deliver w (during_wait env)),
                          snd (deliver w (during_wait env)) @ [Select TimerFired])"
  by (simp add: window_wait_def select_acks_def deliver_keeps case_prod_beta)

text \<open>
  C3. In the streaming state (\<open>acks\<close> is allocated): \<open>Write\<close> returns the publish
  error, or \<open>len(data)\<close>; its trace is the wait, if any, and then the publish of
  \<open>data\<close> on \<open>reply\<close> with the reply address \<open>inbox.len(data)\<close>, whatever the wait
  ended by; with \<open>pending\<close> at most the window there is no wait; over the window
  the wait is one \<open>select\<close> after the acks handled meanwhile, which alone change the
  counter; and \<open>pending\<close> grows by \<open>len(data)\<close> when the publish succeeds and is left
  as it was when it fails.
\<close>

theorem Write_streaming:
  "acks w \<noteq> None \<Longrightarrow>
     fst (Write env w data)
       = (case publish_error env of None \<Rightarrow> Inr (int (length data)) | Some err \<Rightarrow> Inl err)
     \<and> snd (snd (Write env w data))
         = snd (window_wait env w)
           @ [PublishRequest (reply w) (inbox w @ ''.'' @ Itoa (int (length data))) data
                (publish_error env)]
     \<and> (pending w \<le> defaultWindowSize \<longrightarrow> window_wait env w = (w, []))
     \<and> (defaultWindowSize < pending w \<longrightarrow>
          (\<exists>k. snd (window_wait env w) = snd (deliver w (during_wait env)) @ [Select k])
          \<and> pending (fst (window_wait env w)) = pending (fst (deliver w (during_wait env))))
     \<and> pending (fst (snd (Write env w data)))
         = pending (fst (window_wait env w))
           + (if publish_error env = None then int (length data) else 0)"
proof -
  assume "acks w \<noteq> None"
  then have e: "ensure_acks env w = (w, [])"
    by (simp add: ensure_acks_def)
  have "defaultWindowSize < pending w \<Longrightarrow>
      (\<exists>k. snd (window_wait env w) = snd (deliver w (during_wait env)) @ [Select k])
      \<and> pending (fst (window_wait env w)) = pending (fst (deliver w (during_wait env)))"
    by (simp add: window_wait_def select_acks_def case_prod_beta
        split: option.splits nat.splits)
  moreover have "pending w \<le> defaultWindowSize \<Longrightarrow> window_wait env w = (w, [])"
    by (simp add: window_wait_def)
  ultimately show ?thesis
    by (simp add: Write_result Write_events Write_state e Let_def)
qed

theorem Write_streaming_witness:
  "acks full_writer \<noteq> None \<and> defaultWindowSize < pending full_writer
   \<and> fst (Write env_acked full_writer ''next'') = Inr 4
   \<and> last (snd (snd (Write env_acked full_writer ''next'')))
       = PublishRequest ''reply'' ''_INBOX.x.4'' ''next'' None
   \<and> acks streaming_writer \<noteq> None
   \<and> Write (env_ok\<lparr>publish_error := Some ''nats: connection closed''\<rparr>) streaming_writer ''next''
       = (Inl ''nats: connection closed'', streaming_writer,
          [PublishRequest ''reply'' ''_INBOX.x.4'' ''next'' (Some ''nats: connection closed'')])"
proof -
  have a: "acks full_writer \<noteq> None" "defaultWindowSize < pending full_writer"
    "inbox full_writer = ''_INBOX.x''" "reply full_writer = ''reply''"
    by (simp_all add: full_writer_eq defaultWindowSize_def)
  have i: "Itoa (int (length ''next'')) = ''4''"
    by (simp add: Itoa_def digits.simps digitChar_def)
  have b: "acks streaming_writer \<noteq> None" "pending streaming_writer \<le> defaultWindowSize"
    "inbox streaming_writer = ''_INBOX.x''" "reply streaming_writer = ''reply''"
    by (simp_all add: streaming_writer_eq defaultWindowSize_def)
  let ?env = "env_ok\<lparr>publish_error := Some ''nats: connection closed''\<rparr>"
  have p: "publish_error ?env = Some ''nats: connection closed''"
    by simp
  have ww: "window_wait ?env streaming_writer = (streaming_writer, [])"
    using Write_streaming [OF b(1), of ?env "''next''"] b(2) by blast
  have "acks streaming_writer = Some 0"
    by (simp add: streaming_writer_eq)
  then have "fst (snd (Write ?env streaming_writer ''next'')) = streaming_writer"
    by (simp add: Write_state ensure_acks_def ww)
  moreover have "fst (Write ?env streaming_writer ''next'') = Inl ''nats: connection closed''"
    using Write_streaming [OF b(1), of ?env "''next''"] by (simp only: p option.case)
  moreover have "snd (snd (Write ?env streaming_writer ''next''))
      = [PublishRequest ''reply'' ''_INBOX.x.4'' ''next'' (Some ''nats: connection closed'')]"
    using Write_streaming [OF b(1), of ?env "''next''"] b(3,4) i
    by (simp only: ww snd_conv append_Nil p append_Cons)
  ultimately have "Write ?env streaming_writer ''next''
       = (Inl ''nats: connection closed'', streaming_writer,
          [PublishRequest ''reply'' ''_INBOX.x.4'' ''next'' (Some ''nats: connection closed'')])"
    by (metis prod.collapse)
  moreover have "fst (Write env_acked full_writer ''next'') = Inr 4
     \<and> last (snd (snd (Write env_acked full_writer ''next'')))
       = PublishRequest ''reply'' ''_INBOX.x.4'' ''next'' None"
    using Write_streaming [OF a(1), of env_acked "''next''"] a(3,4) i
    by (simp add: env_acked_def env_ok_def)
  ultimately show ?thesis
    using a b by simp
qed

lemma processFlowAck_pending:
  "2 \<le> length (Split (Subject m) CHR ''.'') \<Longrightarrow>
   pending (fst (processFlowAck w m)) = pending w - chunk (Subject m)"
  by (simp add: processFlowAck_def chunk_def Let_def last_conv_nth Split_not_Nil
      split: option.splits)

lemma Inv_nonneg: "Inv w out \<Longrightarrow> 0 \<le> pending w"
proof -
  assume i: "Inv w out"
  have "list_all good xs \<Longrightarrow> 0 \<le> sum_list (map chunk xs)" for xs
    by (induction xs) (simp_all add: good_def)
  from this [of out] i have "0 \<le> sum_list (map chunk out)"
    by (simp add: Inv_def)
  with i show ?thesis by (simp add: Inv_def)
qed

lemma Inv_ack:
  assumes "Inv w out" and "Subject m \<in> set out"
  shows "Inv (fst (processFlowAck w m)) (remove1 (Subject m) out)"
proof -
  from assms have g: "good (Subject m)"
    by (simp add: Inv_def list_all_iff)
  then have p: "pending (fst (processFlowAck w m)) = pending w - chunk (Subject m)"
    by (simp add: good_def processFlowAck_pending)
  have s: "sum_list (map chunk out)
             = chunk (Subject m) + sum_list (map chunk (remove1 (Subject m) out))"
    using assms(2) by (rule sum_list_map_remove1)
  have "list_all good (remove1 (Subject m) out)"
    using assms(1) by (auto simp: Inv_def list_all_iff dest: notin_set_remove1)
  with assms(1) p s show ?thesis
    by (simp add: Inv_def)
qed

lemma Inv_deliver:
  "Inv w out \<Longrightarrow> settle out (map Subject ms) = Some out' \<Longrightarrow> Inv (fst (deliver w ms)) out'"
proof (induction ms arbitrary: w out)
  case Nil
  then show ?case by simp
next
  case (Cons m ms)
  from Cons.prems(2) have a: "Subject m \<in> set out"
    and b: "settle (remove1 (Subject m) out) (map Subject ms) = Some out'"
    by (simp_all split: if_splits)
  have "Inv (fst (deliver (fst (processFlowAck w m)) ms)) out'"
    by (rule Cons.IH [OF Inv_ack [OF Cons.prems(1) a] b])
  then show ?case
    by (simp add: case_prod_beta)
qed

lemma replies_append: "replies (xs @ ys) = replies xs @ replies ys"
  by (induction xs rule: replies.induct) simp_all

lemma replies_deliver: "replies (snd (deliver w ms)) = []"
proof (induction ms arbitrary: w)
  case Nil
  show ?case by simp
next
  case (Cons m ms)
  have "replies (snd (processFlowAck w m)) = []"
    by (simp add: processFlowAck_def Let_def split: option.splits)
  with Cons [of "fst (processFlowAck w m)"] show ?case
    by (simp add: replies_append case_prod_beta)
qed

text \<open>
  The reply address \<open>Write\<close> publishes has two tokens at least, and an ack for it
  takes between 0 and \<open>len(data)\<close> off the counter.
\<close>

lemma good_ackReply:
  "good (ib @ ''.'' @ Itoa (int n)) \<and> chunk (ib @ ''.'' @ Itoa (int n)) \<le> int n"
proof -
  have l: "2 \<le> length (Split (ib @ CHR ''.'' # digits n) CHR ''.'')"
    and t: "Split (ib @ CHR ''.'' # digits n) CHR ''.''
              ! (length (Split (ib @ CHR ''.'' # digits n) CHR ''.'') - 1) = digits n"
    using Split_last_token [OF digits_no_dot] by blast+
  have "last (Split (ib @ CHR ''.'' # digits n) CHR ''.'') = digits n"
    using t by (simp add: last_conv_nth Split_not_Nil)
  then have "chunk (ib @ CHR ''.'' # digits n) = (if int n < 2 ^ 63 then int n else 0)"
    by (simp add: chunk_def Atoi_digits)
  with l show ?thesis
    by (simp add: good_def Itoa_nat)
qed

lemma Inv_window_wait:
  assumes "Inv w out"
    and "settle out (map Subject (if defaultWindowSize < pending w then during_wait env else []))
           = Some out'"
  shows "Inv (fst (window_wait env w)) out'"
    and "replies (snd (window_wait env w)) = []"
proof -
  show "replies (snd (window_wait env w)) = []"
    by (simp add: window_wait_def case_prod_beta replies_append replies_deliver)
  show "Inv (fst (window_wait env w)) out'"
  proof (cases "defaultWindowSize < pending w")
    case True
    with assms(2) have "settle out (map Subject (during_wait env)) = Some out'"
      by simp
    with assms(1) have "Inv (fst (deliver w (during_wait env))) out'"
      by (rule Inv_deliver)
    moreover have "pending (fst (window_wait env w)) = pending (fst (deliver w (during_wait env)))"
      using True by (simp add: window_wait_def select_acks_def case_prod_beta
          split: option.splits nat.splits)
    ultimately show ?thesis
      by (simp add: Inv_def)
  next
    case False
    with assms show ?thesis
      by (simp add: window_wait_def)
  qed
qed

lemma Inv_Write:
  assumes "Inv w out"
    and "settle out (map Subject (if defaultWindowSize < pending w then during_wait env else []))
           = Some out'"
  shows "Inv (fst (snd (Write env w data))) (out' @ replies (snd (snd (Write env w data))))"
proof -
  let ?w1 = "fst (ensure_acks env w)"
  let ?w2 = "fst (window_wait env ?w1)"
  have p1: "pending ?w1 = pending w"
    by (simp add: ensure_acks_keeps)
  then have i1: "Inv ?w1 out"
    using assms(1) by (simp add: Inv_def)
  have i2: "Inv ?w2 out'" and r2: "replies (snd (window_wait env ?w1)) = []"
    using Inv_window_wait [OF i1, of env out'] assms(2) p1 by simp_all
  have r1: "replies (snd (ensure_acks env w)) = []"
    by (simp add: ensure_acks_def)
  show ?thesis
  proof (cases "publish_error env")
    case None
    have g: "good (inbox ?w1 @ ''.'' @ Itoa (int (length data)))"
      and c: "chunk (inbox ?w1 @ ''.'' @ Itoa (int (length data))) \<le> int (length data)"
      using good_ackReply by blast+
    from None have r: "replies (snd (snd (Write env w data)))
        = [inbox ?w1 @ ''.'' @ Itoa (int (length data))]"
      by (simp add: Write_events replies_append r1 r2)
    from None have "pending (fst (snd (Write env w data))) = pending ?w2 + int (length data)"
      by (simp add: Write_state Let_def)
    with i2 g c show ?thesis
      by (simp add: Inv_def r)
  next
    case (Some err)
    then have "replies (snd (snd (Write env w data))) = []"
      by (simp add: Write_events replies_append r1 r2)
    moreover from Some have "fst (snd (Write env w data)) = ?w2"
      by (simp add: Write_state Let_def)
    ultimately show ?thesis
      using i2 by simp
  qed
qed

lemma answered_nonneg:
  "Inv w out \<Longrightarrow> answered w out ss \<Longrightarrow> 0 \<le> pending (run w (take k ss))"
proof (induction ss arbitrary: w out k)
  case Nil
  then show ?case by (simp add: Inv_nonneg)
next
  case (Cons s ss)
  show ?case
  proof (cases k)
    case 0
    with Cons.prems(1) show ?thesis by (simp add: Inv_nonneg)
  next
    case (Suc j)
    show ?thesis
    proof (cases s)
      case (AckDelivery m)
      with Cons.prems(2) have a: "Subject m \<in> set out"
        and b: "answered (fst (processFlowAck w m)) (remove1 (Subject m) out) ss"
        by (simp_all split: if_splits option.splits)
      from Cons.IH [OF Inv_ack [OF Cons.prems(1) a] b, of j] AckDelivery Suc
      show ?thesis by simp
    next
      case (DoWrite env data)
      let ?acked = "map Subject (if defaultWindowSize < pending w then during_wait env else [])"
      show ?thesis
      proof (cases "settle out ?acked")
        case None
        with Cons.prems(2) DoWrite show ?thesis
          by (simp del: settle.simps)
      next
        case (Some out')
        with Cons.prems(2) DoWrite
        have b: "answered (fst (snd (Write env w data)))
                   (out' @ replies (snd (snd (Write env w data)))) ss"
          by (simp del: settle.simps)
        from Cons.IH [OF Inv_Write [OF Cons.prems(1) Some] b, of j] DoWrite Suc
        show ?thesis by simp
      qed
    qed
  qed
qed

lemma DoWrite_env_ok_small:
  assumes "acks w = Some 0" and "pending w \<le> defaultWindowSize"
  shows "Write env_ok w data
           = (Inr (int (length data)), w\<lparr>pending := pending w + int (length data)\<rparr>,
              [PublishRequest (reply w) (inbox w @ ''.'' @ Itoa (int (length data))) data None])"
  using assms by (simp add: Write_def ensure_acks_def window_wait_def env_ok_def)

lemma first_write:
  "Write env_ok (new_nrw ''reply'') ''abc''
     = (Inr 3, streaming_writer,
        [Subscribe ''_INBOX.x.*'', PublishRequest ''reply'' ''_INBOX.x.3'' ''abc'' None])"
  by (simp add: streaming_writer_eq Write_def ensure_acks_def window_wait_def env_ok_def
      new_nrw_def defaultWindowSize_def Itoa_def digits.simps digitChar_def)

lemma ack3: "processFlowAck w (NewMsg ''_INBOX.x.3'') = (w\<lparr>pending := pending w - 3\<rparr>, [])"
  using processFlowAck_token [of "NewMsg ''_INBOX.x.3''" "''_INBOX.x''" "''3''" w]
  by (simp add: NewMsg_def Atoi_def isDigit_def digitsVal_def)

lemma ack2: "processFlowAck w (NewMsg ''_INBOX.x.2'') = (w\<lparr>pending := pending w - 2\<rparr>, [])"
  using processFlowAck_token [of "NewMsg ''_INBOX.x.2''" "''_INBOX.x''" "''2''" w]
  by (simp add: NewMsg_def Atoi_def isDigit_def digitsVal_def)

text \<open>
  C1, as the spec states it, fails: after one write of three bytes, the ack of that
  chunk delivered twice leaves \<open>pending\<close> at \<open>-3\<close>.
\<close>

theorem pending_negative_counterexample:
  "pending (run (new_nrw ''reply'') double_ack) = - 3"
  by (simp add: double_ack_def first_write ack3 streaming_writer_eq)

text \<open>
  C1, amended: in every interleaving of writes and ack deliveries on a new writer in
  which each ack delivery answers a chunk that was published and not acknowledged
  yet (its subject is the reply address of that chunk), \<open>pending\<close> is at no point
  negative.
\<close>

theorem pending_never_negative:
  "answered (new_nrw r) [] ss \<Longrightarrow> 0 \<le> pending (run (new_nrw r) (take k ss))"
proof -
  have "Inv (new_nrw r) []"
    by (simp add: Inv_def new_nrw_def)
  then show "answered (new_nrw r) [] ss \<Longrightarrow> 0 \<le> pending (run (new_nrw r) (take k ss))"
    by (rule answered_nonneg)
qed

theorem pending_never_negative_witness:
  "answered (new_nrw ''reply'') [] two_chunks
   \<and> 0 \<le> pending (run (new_nrw ''reply'') (take 3 two_chunks))
   \<and> pending (run (new_nrw ''reply'') (take 3 two_chunks)) = 3"
proof -
  have s: "acks streaming_writer = Some 0" "pending streaming_writer \<le> defaultWindowSize"
    "pending streaming_writer = 3" "inbox streaming_writer = ''_INBOX.x''"
    by (simp_all add: streaming_writer_eq defaultWindowSize_def)
  have i: "Itoa (int (length ''de'')) = ''2''"
    by (simp add: Itoa_def digits.simps digitChar_def)
  have w2: "Write env_ok streaming_writer ''de''
      = (Inr 2, streaming_writer\<lparr>pending := 5\<rparr>,
         [PublishRequest (reply streaming_writer) ''_INBOX.x.2'' ''de'' None])"
    using DoWrite_env_ok_small [OF s(1,2), of "''de''"] s(3,4) i by simp
  have n: "pending (new_nrw ''reply'') = 0"
    by (simp add: new_nrw_def)
  have m: "Subject (NewMsg x) = x" for x
    by (simp add: NewMsg_def)
  have a: "answered (new_nrw ''reply'') [] two_chunks"
    by (simp add: two_chunks_def first_write w2 ack2 ack3 s(3) n m defaultWindowSize_def)
  have "pending (run (new_nrw ''reply'') (take 3 two_chunks)) = 3"
    by (simp add: two_chunks_def first_write w2 ack2)
  with a pending_never_negative [OF a, of 3] show ?thesis
    by simp
qed

section \<open>Facts about the client\<close>

lemma isPrintable_loop_runes:
  "isPrintable_loop tab s \<longleftrightarrow> (\<forall>r\<in>set (runes s). IsPrint tab r)"
proof (induction tab s rule: isPrintable_loop.induct)
  case (1 tab s)
  show ?case
  proof (cases "s = []")
    case True
    then show ?thesis
      by (simp add: isPrintable_loop.simps [of tab "[]"] runes.simps [of "[]"])
  next
    case False
    show ?thesis
    proof (cases "IsPrint tab (fst (DecodeRune s))")
      case True
      with False 1 show ?thesis
        by (simp add: isPrintable_loop.simps [of tab s] runes.simps [of s])
    next
      case no: False
      with False show ?thesis
        by (simp add: isPrintable_loop.simps [of tab s] runes.simps [of s])
    qed
  qed
qed

lemma isPrintable_take: "isPrintable tab data = isPrintable_loop tab (take snippetSize data)"
  by (simp add: isPrintable_def Let_def)

text \<open>
  C2. \<open>isPrintable\<close> is true exactly when every code point decoded from the first
  32 bytes of the payload passes \<open>unicode.IsPrint\<close>; two payloads with the same
  first 32 bytes get the same answer; and \<open>IsPrint\<close> rejects the control and format
  code points of Latin-1 (C0, DEL, C1, the soft hyphen).
\<close>

theorem isPrintable_first_32:
  "(isPrintable tab data \<longleftrightarrow> (\<forall>r\<in>set (runes (take 32 data)). IsPrint tab r))
   \<and> (take 32 data = take 32 data' \<longrightarrow> isPrintable tab data = isPrintable tab data')
   \<and> ((0 \<le> r \<and> r < 0x20) \<or> (0x7F \<le> r \<and> r \<le> 0x9F) \<or> r = 0xAD \<longrightarrow> \<not> IsPrint tab r)"
proof (intro conjI impI)
  show "isPrintable tab data \<longleftrightarrow> (\<forall>r\<in>set (runes (take 32 data)). IsPrint tab r)"
    by (simp add: isPrintable_take isPrintable_loop_runes snippetSize_def)
  show "isPrintable tab data = isPrintable tab data'" if "take 32 data = take 32 data'"
    using that by (simp add: isPrintable_take snippetSize_def)
  show "\<not> IsPrint tab r" if "(0 \<le> r \<and> r < 0x20) \<or> (0x7F \<le> r \<and> r \<le> 0x9F) \<or> r = 0xAD"
    using that by (auto simp: IsPrint_def)
qed

lemma DecodeRune_ascii: "(of_char c :: int) < 0x80 \<Longrightarrow> DecodeRune (c # cs) = (of_char c, 1)"
  by (simp add: DecodeRune.simps(2))

lemma runes_ascii: "(of_char c :: int) < 0x80 \<Longrightarrow> runes (c # cs) = of_char c # runes cs"
  by (simp add: runes.simps [of "c # cs"] DecodeRune_ascii)

theorem isPrintable_first_32_witness:
  "isPrintable latin1_only ''hello world''
   \<and> \<not> isPrintable latin1_only [CHR 0x00, CHR 0x01]
   \<and> isPrintable latin1_only (replicate 32 CHR ''a'' @ [CHR 0x00])
   \<and> \<not> IsPrint latin1_only 0"
proof -
  have r: "runes [] = []"
    by (simp add: runes.simps [of "[]"])
  have a: "isPrintable latin1_only ''hello world''"
    using isPrintable_first_32 [where tab = latin1_only and data = "''hello world''"]
    by (simp add: runes_ascii r IsPrint_def)
  have b: "\<not> isPrintable latin1_only [CHR 0x00, CHR 0x01]"
    using isPrintable_first_32 [where tab = latin1_only and data = "[CHR 0x00, CHR 0x01]"]
    by (simp add: runes_ascii r IsPrint_def)
  have "set (runes (replicate n CHR ''a'')) \<subseteq> {97}" for n
    by (induction n) (simp_all add: r runes_ascii)
  from this [of 32] have "\<forall>r\<in>set (runes (replicate 32 CHR ''a'')). r = 97"
    by blast
  moreover have "IsPrint latin1_only 97"
    by (simp add: IsPrint_def)
  ultimately have "\<forall>r\<in>set (runes (replicate 32 CHR ''a'')). IsPrint latin1_only r"
    by auto
  then have c: "isPrintable latin1_only (replicate 32 CHR ''a'' @ [CHR 0x00])"
    using isPrintable_first_32 [where tab = latin1_only
        and data = "replicate 32 CHR ''a'' @ [CHR 0x00]", THEN conjunct1]
    by simp
  have "\<not> IsPrint latin1_only 0"
    using isPrintable_first_32 [where tab = latin1_only and r = 0] by simp
  with a b c show ?thesis by simp
qed

lemma quoteLoop_Nil: "quoteLoop tab [] = []"
  by (simp add: quoteLoop.simps [of tab "[]"])

lemma quoteLoop_plain_char:
  assumes "plain_char c"
  shows "quoteLoop tab (c # cs) = c # quoteLoop tab cs"
proof -
  let ?r = "of_char c :: int"
  from assms have b: "0x20 \<le> ?r" "?r < 0x7F" and q: "c \<noteq> dquote" "c \<noteq> bslash"
    by (simp_all add: plain_char_def)
  have "(of_char dquote :: int) = 0x22" "(of_char bslash :: int) = 0x5C"
    by (simp_all add: dquote_def bslash_def)
  with q have "?r \<noteq> 0x22" "?r \<noteq> 0x5C"
    by (metis of_char_eq_iff)+
  with b have "appendEscapedRune tab ?r = [c]"
    by (simp add: appendEscapedRune_def IsPrint_def EncodeRune_def)
  with b show ?thesis
    by (simp add: quoteLoop.simps [of tab "c # cs"] RuneError_def)
qed

lemma char_of_34: "char_of (34 :: int) = CHR 0x22"
proof -
  have "char_of (of_char (CHR 0x22) :: int) = CHR 0x22"
    by (rule char_of_char)
  then show ?thesis by simp
qed

lemma quoteLoop_dquote: "quoteLoop tab (dquote # cs) = bslash # dquote # quoteLoop tab cs"
  unfolding dquote_def
  by (simp add: quoteLoop.simps [of tab "CHR 0x22 # cs"] RuneError_def appendEscapedRune_def
      char_of_34)

lemma quoteLoop_plain: "plain s \<Longrightarrow> quoteLoop tab s = s"
  by (induction s) (simp_all add: plain_def quoteLoop_Nil quoteLoop_plain_char)

lemma Quote_plain: "plain s \<Longrightarrow> Quote tab s = dquote # s @ [dquote]"
  by (simp add: Quote_def quoteLoop_plain)

lemma Sprintf_resource:
  "Sprintf tab ''Error retrieving resource %q'' [s] = ''Error retrieving resource '' @ Quote tab s"
  by simp

lemma Contains_prefix: "Contains (s @ b) s"
proof (cases "s @ b")
  case Nil
  then show ?thesis by simp
next
  case (Cons c cs)
  have "HasPrefix (s @ b) s"
    by (simp add: HasPrefix_def)
  with Cons show ?thesis by simp
qed

lemma Contains_append: "Contains (a @ s @ b) s"
  by (induction a) (simp_all add: Contains_prefix)

lemma Get_reply_msg:
  "Get (Header (reply_msg status len d)) ''Status'' = status"
  "Get (Header (reply_msg status len d)) ''Content-Length'' = len"
  by (simp_all add: reply_msg_def Get_def Add_def)

lemma first_of_env: "NextMsg (env_of first ds) 0 = Inr first"
  by (simp add: env_of_def stream_of_def)

lemma Quote_quoted_status:
  "Quote latin1_only quoted_status
     = [dquote] @ ''418 '' @ [bslash, dquote] @ ''teapot'' @ [bslash, dquote] @ [dquote]"
proof -
  have p: "plain_char c" if "c \<in> set ''418 teapot''" for c
    using that by (auto simp: plain_char_def dquote_def bslash_def)
  show ?thesis
    by (simp add: Quote_def quoted_status_def quoteLoop_plain_char p quoteLoop_dquote
        quoteLoop_Nil)
qed

text \<open>
  C8, as the spec states it, fails: the reply has the status \<open>418 "teapot"\<close>. The
  client exits with \<open>log.Fatalf("Error retrieving resource %q", status)\<close> after the
  one receive of the header; the message \<open>%q\<close> makes of it has the status with its
  quotes escaped, and does not contain the status text as it is.
\<close>

theorem status_escaped_counterexample:
  "\<not> HasPrefix quoted_status ''200''
   \<and> client_main latin1_only env_teapot
       = \<lparr>ending = Exited, received = 0, calls = 1,
          trace = [Fatalf ''Error retrieving resource %q'' [quoted_status]]\<rparr>
   \<and> \<not> Contains (Sprintf latin1_only ''Error retrieving resource %q'' [quoted_status])
          quoted_status"
proof -
  have h: "\<not> HasPrefix quoted_status ''200''"
    by (simp add: HasPrefix_def quoted_status_def)
  then have c: "client_main latin1_only env_teapot
       = \<lparr>ending = Exited, received = 0, calls = 1,
          trace = [Fatalf ''Error retrieving resource %q'' [quoted_status]]\<rparr>"
    by (simp add: client_main_def env_teapot_def first_of_env Get_reply_msg)
  have "\<not> Contains (''Error retrieving resource '' @ Quote latin1_only quoted_status)
            quoted_status"
    unfolding Quote_quoted_status unfolding quoted_status_def
    by (simp add: HasPrefix_def dquote_def bslash_def)
  with h c show ?thesis
    by (simp only: Sprintf_resource simp_thms)
qed

text \<open>
  C8, amended: when the status of the header reply does not start with \<open>200\<close>, the
  client exits at once with \<open>log.Fatalf("Error retrieving resource %q", status)\<close>,
  having made the one receive of the header and none for the body; the message is
  the status as a quoted Go string, and contains the status text as it is when the
  status is made of printable ASCII characters other than the double quote and the
  backslash. When the status starts with \<open>200\<close> and \<open>Atoi\<close> rejects the
  \<open>Content-Length\<close> value, as it does when the header is missing or has a character that
  is neither a digit nor a sign, the client exits with \<open>Expected a Content-Length\<close>,
  again before any receive for the body.
\<close>

theorem header_check:
  "NextMsg env 0 = Inr m \<Longrightarrow>
     (\<not> HasPrefix (Get (Header m) ''Status'') ''200'' \<longrightarrow>
        client_main tab env
          = \<lparr>ending = Exited, received = 0, calls = 1,
             trace = [Fatalf ''Error retrieving resource %q'' [Get (Header m) ''Status'']]\<rparr>
        \<and> Sprintf tab ''Error retrieving resource %q'' [Get (Header m) ''Status'']
            = ''Error retrieving resource '' @ Quote tab (Get (Header m) ''Status'')
        \<and> (plain (Get (Header m) ''Status'') \<longrightarrow>
             Contains (Sprintf tab ''Error retrieving resource %q'' [Get (Header m) ''Status''])
               (Get (Header m) ''Status'')))
     \<and> (HasPrefix (Get (Header m) ''Status'') ''200''
          \<and> Atoi (Get (Header m) ''Content-Length'') = None \<longrightarrow>
        client_main tab env
          = \<lparr>ending = Exited, received = 0, calls = 1,
             trace = [Fatalf ''Expected a Content-Length'' []]\<rparr>)
     \<and> (Header m ''Content-Length'' = []
          \<or> (\<exists>c\<in>set (Get (Header m) ''Content-Length'').
                \<not> isDigit c \<and> c \<noteq> CHR ''-'' \<and> c \<noteq> CHR ''+'') \<longrightarrow>
        Atoi (Get (Header m) ''Content-Length'') = None)"
proof (intro conjI impI)
  assume m: "NextMsg env 0 = Inr m"
  {
    assume "\<not> HasPrefix (Get (Header m) ''Status'') ''200''"
    with m show "client_main tab env
          = \<lparr>ending = Exited, received = 0, calls = 1,
             trace = [Fatalf ''Error retrieving resource %q'' [Get (Header m) ''Status'']]\<rparr>"
      by (simp add: client_main_def)
  }
  show "Sprintf tab ''Error retrieving resource %q'' [Get (Header m) ''Status'']
            = ''Error retrieving resource '' @ Quote tab (Get (Header m) ''Status'')"
    by (rule Sprintf_resource)
  {
    assume "plain (Get (Header m) ''Status'')"
    then have "Sprintf tab ''Error retrieving resource %q'' [Get (Header m) ''Status'']
        = (''Error retrieving resource '' @ [dquote]) @ Get (Header m) ''Status'' @ [dquote]"
      by (simp only: Sprintf_resource Quote_plain append_Cons append_Nil append_assoc)
    then show "Contains (Sprintf tab ''Error retrieving resource %q'' [Get (Header m) ''Status''])
               (Get (Header m) ''Status'')"
      by (simp only: Contains_append)
  }
  {
    assume "HasPrefix (Get (Header m) ''Status'') ''200''
          \<and> Atoi (Get (Header m) ''Content-Length'') = None"
    with m show "client_main tab env
          = \<lparr>ending = Exited, received = 0, calls = 1,
             trace = [Fatalf ''Expected a Content-Length'' []]\<rparr>"
      by (simp add: client_main_def)
  }
  {
    assume a: "Header m ''Content-Length'' = []
          \<or> (\<exists>c\<in>set (Get (Header m) ''Content-Length'').
                \<not> isDigit c \<and> c \<noteq> CHR ''-'' \<and> c \<noteq> CHR ''+'')"
    have "Get (Header m) ''Content-Length'' = []" if "Header m ''Content-Length'' = []"
      using that by (simp add: Get_def)
    with a show "Atoi (Get (Header m) ''Content-Length'') = None"
      by (intro Atoi_non_numeric) blast
  }
qed

theorem header_check_witness:
  "client_main latin1_only env_404
     = \<lparr>ending = Exited, received = 0, calls = 1,
        trace = [Fatalf ''Error retrieving resource %q'' [''404 Not Found'']]\<rparr>
   \<and> Contains (Sprintf latin1_only ''Error retrieving resource %q'' [''404 Not Found''])
        ''404 Not Found''
   \<and> client_main latin1_only (env_of (reply_msg ''200 OK'' ''ten'' []) [])
       = \<lparr>ending = Exited, received = 0, calls = 1,
          trace = [Fatalf ''Expected a Content-Length'' []]\<rparr>"
proof -
  let ?m = "reply_msg ''404 Not Found'' ''0'' []"
  have a: "NextMsg env_404 0 = Inr ?m"
    by (simp add: env_404_def first_of_env)
  have b: "\<not> HasPrefix (Get (Header ?m) ''Status'') ''200''"
    "plain (Get (Header ?m) ''Status'')"
    by (simp_all add: Get_reply_msg HasPrefix_def plain_def plain_char_def dquote_def
        bslash_def)
  let ?n = "reply_msg ''200 OK'' ''ten'' []"
  have c: "NextMsg (env_of ?n []) 0 = Inr ?n"
    by (simp add: first_of_env)
  have d: "HasPrefix (Get (Header ?n) ''Status'') ''200''"
    "\<exists>c\<in>set (Get (Header ?n) ''Content-Length''). \<not> isDigit c \<and> c \<noteq> CHR ''-'' \<and> c \<noteq> CHR ''+''"
    by (simp_all add: Get_reply_msg HasPrefix_def isDigit_def)
  from header_check [OF a, of latin1_only] b
    header_check [OF c, of latin1_only] d
  show ?thesis
    by (simp add: Get_reply_msg)
qed

lemma receive_loop_done:
  "cl \<le> rcvd \<Longrightarrow>
     receive_loop tab has_fd next cl i rcvd checked tr
       = \<lparr>ending = Returned, received = rcvd, calls = i, trace = tr\<rparr>"
  by (subst receive_loop.simps) simp

lemma receive_loop_stop:
  "rcvd < cl \<Longrightarrow> \<not> is_chunk next i \<Longrightarrow>
     receive_loop tab has_fd next cl i rcvd checked tr
       = \<lparr>ending = Returned, received = rcvd, calls = Suc i, trace = tr\<rparr>"
  by (subst receive_loop.simps) (auto simp: is_chunk_def)

lemma receive_loop_refuse:
  "rcvd < cl \<Longrightarrow> is_chunk next i \<Longrightarrow> \<not> has_fd \<Longrightarrow> \<not> checked \<Longrightarrow>
   \<not> isPrintable tab (Data (projr (next i))) \<Longrightarrow>
     receive_loop tab has_fd next cl i rcvd checked tr
       = \<lparr>ending = Exited, received = rcvd, calls = Suc i,
          trace = tr @ [Fatalf ''Warning, data received is binary, consider using -output FILE'' []]\<rparr>"
  by (subst receive_loop.simps) (simp add: is_chunk_def)

lemma receive_loop_step:
  "rcvd < cl \<Longrightarrow> is_chunk next i \<Longrightarrow>
   has_fd \<or> checked \<or> isPrintable tab (Data (projr (next i))) \<Longrightarrow>
     receive_loop tab has_fd next cl i rcvd checked tr
       = receive_loop tab has_fd next cl (Suc i) (rcvd + chunk_len next i)
           (checked \<or> \<not> has_fd) (tr @ consumed_events has_fd next i 1)"
  by (subst receive_loop.simps) (auto simp: is_chunk_def chunk_len_def)

lemma consumed_events_Suc:
  "consumed_events has_fd next i (Suc n)
     = consumed_events has_fd next i 1 @ consumed_events has_fd next (Suc i) n"
  by simp

text \<open>Over a run of \<open>n\<close> chunks that the classifier lets through, the loop goes on.\<close>

lemma receive_loop_chunks:
  "streaming next cl i rcvd n \<Longrightarrow>
   n = 0 \<or> has_fd \<or> checked \<or> isPrintable tab (Data (projr (next i))) \<Longrightarrow>
     receive_loop tab has_fd next cl i rcvd checked tr
       = receive_loop tab has_fd next cl (i + n) (rcvd + total next i n)
           (checked \<or> (0 < n \<and> \<not> has_fd)) (tr @ consumed_events has_fd next i n)"
proof (induction n arbitrary: i rcvd checked tr)
  case 0
  then show ?case by simp
next
  case (Suc n)
  from Suc.prems(1) have a: "rcvd < cl" "is_chunk next i"
    and s: "streaming next cl (Suc i) (rcvd + chunk_len next i) n"
    by simp_all
  from Suc.prems(2) have p: "has_fd \<or> checked \<or> isPrintable tab (Data (projr (next i)))"
    by simp
  have q: "n = 0 \<or> has_fd \<or> (checked \<or> \<not> has_fd)
      \<or> isPrintable tab (Data (projr (next (Suc i))))"
    by blast
  have "receive_loop tab has_fd next cl i rcvd checked tr
      = receive_loop tab has_fd next cl (Suc i) (rcvd + chunk_len next i)
          (checked \<or> \<not> has_fd) (tr @ consumed_events has_fd next i 1)"
    by (rule receive_loop_step [OF a p])
  also have "\<dots> = receive_loop tab has_fd next cl (Suc i + n)
      (rcvd + chunk_len next i + total next (Suc i) n)
      ((checked \<or> \<not> has_fd) \<or> (0 < n \<and> \<not> has_fd))
      ((tr @ consumed_events has_fd next i 1) @ consumed_events has_fd next (Suc i) n)"
    by (rule Suc.IH [OF s q])
  also have "\<dots> = receive_loop tab has_fd next cl (i + Suc n) (rcvd + total next i (Suc n))
      (checked \<or> (0 < Suc n \<and> \<not> has_fd)) (tr @ consumed_events has_fd next i (Suc n))"
  proof -
    have "((checked \<or> \<not> has_fd) \<or> (0 < n \<and> \<not> has_fd)) = (checked \<or> (0 < Suc n \<and> \<not> has_fd))"
      by auto
    then show ?thesis
      by (simp add: add.assoc)
  qed
  finally show ?case .
qed

lemma stream_of_chunk:
  "0 < k \<Longrightarrow> k \<le> length ds \<Longrightarrow> stream_of first ds k = Inr (reply_msg [] [] (ds ! (k - 1)))"
  by (simp add: stream_of_def)

lemma stream_of_timeout: "length ds < k \<Longrightarrow> stream_of first ds k = Inl ''nats: timeout''"
  by (simp add: stream_of_def)

lemma client_main_200:
  "client_main tab (env_of (reply_msg ''200 OK'' ''10'' []) ds)
     = receive_loop tab False (stream_of (reply_msg ''200 OK'' ''10'' []) ds) 10 1 0 False []"
proof -
  have "Atoi ''10'' = Some 10"
    by (simp add: Atoi_def isDigit_def digitsVal_def)
  then show ?thesis
    by (simp add: client_main_def env_of_def stream_of_def Get_reply_msg HasPrefix_def)
qed

lemma isPrintable_ascii:
  "length s \<le> 32 \<Longrightarrow> \<forall>c\<in>set s. 0x20 \<le> (of_char c :: int) \<and> (of_char c :: int) < 0x7F \<Longrightarrow>
     isPrintable tab s"
proof -
  assume l: "length s \<le> 32" and a: "\<forall>c\<in>set s. 0x20 \<le> (of_char c :: int) \<and> (of_char c :: int) < 0x7F"
  have "\<forall>c\<in>set s. 0x20 \<le> (of_char c :: int) \<and> (of_char c :: int) < 0x7F \<Longrightarrow>
      \<forall>r\<in>set (runes s). IsPrint tab r" for s
  proof (induction s)
    case Nil
    show ?case by (simp add: runes.simps [of "[]"])
  next
    case (Cons c cs)
    then show ?case
      by (simp add: runes_ascii IsPrint_def)
  qed
  with a have "isPrintable_loop tab s"
    by (simp only: isPrintable_loop_runes)
  with l show ?thesis
    by (simp add: isPrintable_take snippetSize_def)
qed

text \<open>
  C9, as the spec states it, fails: no output file, \<open>Content-Length\<close> 10, and a first
  chunk of two bytes that starts with a zero byte. The receive succeeds and the
  chunk is not empty, yet the client stops with the total at 0: it exits with the
  binary-data error.
\<close>

theorem binary_chunk_counterexample:
  "is_chunk (NextMsg env_binary) 1
   \<and> client_main latin1_only env_binary
       = \<lparr>ending = Exited, received = 0, calls = 2,
          trace = [Fatalf ''Warning, data received is binary, consider using -output FILE'' []]\<rparr>"
proof -
  let ?next = "stream_of (reply_msg ''200 OK'' ''10'' []) [[CHR 0x00, CHR 0x01]]"
  have dd: "Data (projr (?next (Suc 0))) = [CHR 0x00, CHR 0x01]"
    by (simp add: stream_of_def reply_msg_def)
  have c: "is_chunk ?next (Suc 0)"
    by (simp add: is_chunk_def stream_of_def reply_msg_def)
  have "\<not> IsPrint latin1_only 0"
    by (simp add: IsPrint_def)
  then have "\<not> isPrintable latin1_only [CHR 0x00, CHR 0x01]"
    by (simp add: isPrintable_take snippetSize_def isPrintable_loop_runes runes_ascii)
  then have "\<not> isPrintable latin1_only (Data (projr (?next (Suc 0))))"
    by (simp only: dd not_False_eq_True)
  from receive_loop_refuse [OF _ c _ _ this, of 0 10 False False "[]"]
  have "receive_loop latin1_only False ?next 10 (Suc 0) 0 False []
      = \<lparr>ending = Exited, received = 0, calls = Suc (Suc 0),
         trace = [Fatalf ''Warning, data received is binary, consider using -output FILE'' []]\<rparr>"
    by simp
  moreover have "NextMsg env_binary = ?next"
    by (simp add: env_binary_def env_of_def)
  ultimately show ?thesis
    using c by (simp add: env_binary_def client_main_200 eval_nat_numeral)
qed

text \<open>
  C9, amended. From any point of the receive loop, over the next \<open>n\<close> chunks (each
  received with the total still below \<open>Content-Length\<close>, and the first of them not
  refused as binary): if the total is still below \<open>Content-Length\<close> and the next
  receive fails, times out or brings an empty chunk, the loop ends there, without
  an error and without another receive, with the total and the output of the \<open>n\<close>
  chunks; and if the total has reached \<open>Content-Length\<close> (or passed it), the loop
  ends there without another receive. The one other way out is the refusal of a
  first chunk that is not printable when there is no output file: the client
  exits with an error and the total unchanged.
\<close>

theorem receive_loop_ends:
  assumes "streaming next cl i rcvd n"
    and "n = 0 \<or> has_fd \<or> checked \<or> isPrintable tab (Data (projr (next i)))"
  shows "(rcvd + total next i n < cl \<and> \<not> is_chunk next (i + n) \<longrightarrow>
            receive_loop tab has_fd next cl i rcvd checked tr
              = \<lparr>ending = Returned, received = rcvd + total next i n, calls = Suc (i + n),
                 trace = tr @ consumed_events has_fd next i n\<rparr>)
         \<and> (cl \<le> rcvd + total next i n \<longrightarrow>
            receive_loop tab has_fd next cl i rcvd checked tr
              = \<lparr>ending = Returned, received = rcvd + total next i n, calls = i + n,
                 trace = tr @ consumed_events has_fd next i n\<rparr>)
         \<and> (rcvd < cl \<and> is_chunk next i \<and> \<not> has_fd \<and> \<not> checked
              \<and> \<not> isPrintable tab (Data (projr (next i))) \<longrightarrow>
            receive_loop tab has_fd next cl i rcvd checked tr
              = \<lparr>ending = Exited, received = rcvd, calls = Suc i,
                 trace = tr @ [Fatalf ''Warning, data received is binary, consider using -output FILE'' []]\<rparr>)"
  using receive_loop_chunks [OF assms, of tr]
  by (simp add: receive_loop_stop receive_loop_done receive_loop_refuse)

theorem receive_loop_ends_witness:
  "streaming (NextMsg env_short) 10 1 0 2
   \<and> \<not> is_chunk (NextMsg env_short) 3
   \<and> client_main latin1_only env_short
       = \<lparr>ending = Returned, received = 5, calls = 4,
          trace = [Logf [CHR 0x0A, CHR ''%'', CHR ''s''] [''he''], Respond ''_INBOX.x.2'',
                   Logf [CHR 0x0A, CHR ''%'', CHR ''s''] [''llo''], Respond ''_INBOX.x.3'']\<rparr>"
proof -
  let ?next = "stream_of (reply_msg ''200 OK'' ''10'' []) [''he'', ''llo'']"
  have e: "NextMsg env_short = ?next"
    by (simp add: env_short_def env_of_def)
  have i: "Itoa 2 = ''2''" "Itoa 3 = ''3''"
    by (simp_all add: Itoa_def digits.simps digitChar_def)
  have n: "?next (Suc 0) = Inr (reply_msg [] [] ''he'')"
    "?next (Suc (Suc 0)) = Inr (reply_msg [] [] ''llo'')"
    "?next (Suc (Suc (Suc 0))) = Inl ''nats: timeout''"
    by (simp_all add: stream_of_def)
  have d: "Data (reply_msg [] [] x) = x" "Reply (reply_msg [] [] x) = ''_INBOX.x.'' @ Itoa (int (length x))"
    for x
    by (simp_all add: reply_msg_def)
  have s: "streaming ?next 10 (Suc 0) 0 (Suc (Suc 0))"
    by (simp add: is_chunk_def chunk_len_def n d)
  have t: "total ?next (Suc 0) (Suc (Suc 0)) = 5"
    by (simp add: chunk_len_def n d)
  have c: "\<not> is_chunk ?next (Suc (Suc (Suc 0)))"
    by (simp add: is_chunk_def n)
  have p: "isPrintable latin1_only (Data (projr (?next (Suc 0))))"
    by (simp add: n d isPrintable_ascii)
  have ev: "consumed_events False ?next (Suc 0) (Suc (Suc 0))
      = [Logf [CHR 0x0A, CHR ''%'', CHR ''s''] [''he''], Respond ''_INBOX.x.2'',
         Logf [CHR 0x0A, CHR ''%'', CHR ''s''] [''llo''], Respond ''_INBOX.x.3'']"
    by (simp add: n d i)
  have "Suc (Suc 0) = 0 \<or> False \<or> False
      \<or> isPrintable latin1_only (Data (projr (?next (Suc 0))))"
    using p by simp
  from receive_loop_ends [OF s this, of "[]"] t c ev
  have "receive_loop latin1_only False ?next 10 (Suc 0) 0 False []
      = \<lparr>ending = Returned, received = 5, calls = Suc (Suc (Suc (Suc 0))),
         trace = [Logf [CHR 0x0A, CHR ''%'', CHR ''s''] [''he''], Respond ''_INBOX.x.2'',
                  Logf [CHR 0x0A, CHR ''%'', CHR ''s''] [''llo''], Respond ''_INBOX.x.3'']\<rparr>"
    by simp
  with s c show ?thesis
    unfolding e by (simp add: env_short_def client_main_200 eval_nat_numeral)
qed

end
